theory Spec2Isabelle
  imports Complex_Main
begin

section \<open>Data model\<close>

text \<open>
  The store is the relational database behind the Prisma client, reduced to the three
  tables the order routes touch. Identifiers are the string keys of the rows. A table is
  a finite map from its primary key, so \<open>findUnique\<close> is a lookup and \<open>update\<close> on a
  missing key is the error Prisma raises (P2025).

  Quantities and stock (Prisma \<open>Int\<close> columns) are integers. Prices and amounts (Prisma
  \<open>Float\<close> columns) are JavaScript numbers, and the arithmetic of the routes on them is
  the arithmetic of IEEE 754 binary64.
\<close>

type_synonym ident = string

subsection \<open>JavaScript numbers\<close>

text \<open>
  A number is a finite binary64 value, an infinity or NaN. A finite value is kept as the
  real number it denotes; in a store these are the reals that rounding leaves unchanged,
  and every operation below returns such a value. The zero with a negative sign is not
  told apart from zero: the two differ only as a divisor, and the routes divide by the
  literal 100 only.
\<close>

datatype number = Finite real | PosInfinity | NegInfinity | NaN

text \<open>The number of binary digits of a natural number.\<close>

function bitLength :: "nat \<Rightarrow> nat" where
  "bitLength n = (if n = 0 then 0 else Suc (bitLength (n div 2)))"
  by pat_completeness auto
termination
  by (relation "measure (\<lambda>n. n)") auto

definition pow2 :: "int \<Rightarrow> real" where
  "pow2 i = (if 0 \<le> i then 2 ^ nat i else 1 / 2 ^ nat (- i))"

text \<open>For \<open>x > 0\<close>, the exponent \<open>e\<close> with \<open>2 ^ e \<le> x < 2 ^ (e + 1)\<close>.\<close>

definition exponentOf :: "real \<Rightarrow> int" where
  "exponentOf x =
     (if 1 \<le> x then int (bitLength (nat \<lfloor>x\<rfloor>)) - 1
      else - int (bitLength (nat (\<lceil>1 / x\<rceil> - 1))))"

text \<open>The nearest integer, a tie going to the even one.\<close>

definition roundHalfEven :: "real \<Rightarrow> int" where
  "roundHalfEven x =
     (if x - of_int \<lfloor>x\<rfloor> < 1 / 2 then \<lfloor>x\<rfloor>
      else if x - of_int \<lfloor>x\<rfloor> > 1 / 2 then \<lfloor>x\<rfloor> + 1
      else if even \<lfloor>x\<rfloor> then \<lfloor>x\<rfloor> else \<lfloor>x\<rfloor> + 1)"

text \<open>
  The spacing of the binary64 values around \<open>x > 0\<close> is \<open>2\<close> to the power \<open>quantum x\<close>:
  53 significant bits, and the fixed spacing of the subnormal values below \<open>2 ^ -1022\<close>.
\<close>

definition quantum :: "real \<Rightarrow> int" where
  "quantum x = max (exponentOf x - 52) (- 1074)"

definition nearest :: "real \<Rightarrow> real" where
  "nearest x = of_int (roundHalfEven (x / pow2 (quantum x))) * pow2 (quantum x)"

text \<open>
  The binary64 value of an exact result (round to nearest, ties to even): what a numeric
  literal denotes and what every arithmetic operation returns. A result that rounds to
  \<open>2 ^ 1024\<close> or beyond is an infinity.
\<close>

definition fl :: "real \<Rightarrow> number" where
  "fl x =
     (if x = 0 then Finite 0
      else if 0 < x then (if nearest x \<ge> 2 ^ 1024 then PosInfinity else Finite (nearest x))
      else (if nearest (- x) \<ge> 2 ^ 1024 then NegInfinity else Finite (- nearest (- x))))"

text \<open>An integer of the request or of an \<open>Int\<close> column, as a number.\<close>

definition toNumber :: "int \<Rightarrow> number" where
  "toNumber i = fl (of_int i)"

text \<open>The operators \<open>*\<close>, \<open>+\<close>, \<open>/\<close> and \<open>>=\<close> on numbers, and \<open>Math.round\<close>.\<close>

fun num_mul :: "number \<Rightarrow> number \<Rightarrow> number" where
  "num_mul (Finite x) (Finite y) = fl (x * y)"
| "num_mul NaN b = NaN"
| "num_mul a NaN = NaN"
| "num_mul (Finite x) PosInfinity =
     (if x = 0 then NaN else if 0 < x then PosInfinity else NegInfinity)"
| "num_mul (Finite x) NegInfinity =
     (if x = 0 then NaN else if 0 < x then NegInfinity else PosInfinity)"
| "num_mul PosInfinity (Finite y) =
     (if y = 0 then NaN else if 0 < y then PosInfinity else NegInfinity)"
| "num_mul NegInfinity (Finite y) =
     (if y = 0 then NaN else if 0 < y then NegInfinity else PosInfinity)"
| "num_mul PosInfinity PosInfinity = PosInfinity"
| "num_mul PosInfinity NegInfinity = NegInfinity"
| "num_mul NegInfinity PosInfinity = NegInfinity"
| "num_mul NegInfinity NegInfinity = PosInfinity"

fun num_add :: "number \<Rightarrow> number \<Rightarrow> number" where
  "num_add (Finite x) (Finite y) = fl (x + y)"
| "num_add NaN b = NaN"
| "num_add a NaN = NaN"
| "num_add PosInfinity NegInfinity = NaN"
| "num_add NegInfinity PosInfinity = NaN"
| "num_add PosInfinity b = PosInfinity"
| "num_add NegInfinity b = NegInfinity"
| "num_add a PosInfinity = PosInfinity"
| "num_add a NegInfinity = NegInfinity"

fun num_div :: "number \<Rightarrow> number \<Rightarrow> number" where
  "num_div (Finite x) (Finite y) =
     (if y = 0 then (if x = 0 then NaN else if 0 < x then PosInfinity else NegInfinity)
      else fl (x / y))"
| "num_div NaN b = NaN"
| "num_div a NaN = NaN"
| "num_div (Finite x) b = Finite 0"
| "num_div PosInfinity (Finite y) = (if 0 \<le> y then PosInfinity else NegInfinity)"
| "num_div NegInfinity (Finite y) = (if 0 \<le> y then NegInfinity else PosInfinity)"
| "num_div a b = NaN"

fun num_ge :: "number \<Rightarrow> number \<Rightarrow> bool" where
  "num_ge (Finite x) (Finite y) = (y \<le> x)"
| "num_ge NaN b = False"
| "num_ge a NaN = False"
| "num_ge PosInfinity b = True"
| "num_ge a NegInfinity = True"
| "num_ge a b = False"

text \<open>\<open>Math.round\<close>: the nearest integer, a tie going up; exact on every finite number.\<close>

fun Math_round :: "number \<Rightarrow> number" where
  "Math_round (Finite x) = Finite (of_int \<lfloor>x + 1 / 2\<rfloor>)"
| "Math_round a = a"

text \<open>
  Modelled from the spec: the Prisma schema with the order status enumeration is not
  among the sources; the five values are those of the specification's state machine, and
  \<open>PENDING\<close> is the column default of a new order.
\<close>

datatype OrderStatus = PENDING | CONFIRMED | SHIPPED | DELIVERED | CANCELLED

record Product =
  name :: string
  price :: number
  salePrice :: "number option"
  stock :: int
  isActive :: bool

text \<open>One element of \<open>req.body.items\<close>.\<close>

record Item =
  productId :: ident
  quantity :: int
  item_size :: "string option"
  item_color :: "string option"

text \<open>A row of the order item table, as pushed onto \<open>orderItems\<close> by the route.\<close>

record OrderItem =
  oi_productId :: ident
  oi_quantity :: int
  oi_price :: number
  oi_size :: "string option"
  oi_color :: "string option"

record Order =
  orderNumber :: string
  userId :: ident
  addressId :: ident
  totalAmount :: number
  shippingCost :: number
  taxAmount :: number
  paymentMethod :: string
  order_notes :: "string option"
  status :: OrderStatus
  orderItems :: "OrderItem list"

text \<open>The address table only matters through the owner of each address.\<close>

record Store =
  products :: "ident \<rightharpoonup> Product"
  orders :: "ident \<rightharpoonup> Order"
  addresses :: "ident \<rightharpoonup> ident"

text \<open>The body of \<open>POST /\<close> after JSON parsing.\<close>

record Request =
  req_items :: "Item list"
  req_addressId :: string
  req_paymentMethod :: string
  req_notes :: "string option"

text \<open>
  Every awaited call on the Prisma client may reject; the routes catch the rejection and
  answer 500. A call is named by its place in the route, the loops by the index of the
  line item.
\<close>

datatype StoreCall =
    AddressFind
  | ProductFind nat
  | OrderFind
  | OrderCreate
  | OrderUpdate
  | ProductUpdate nat

text \<open>
  What a route reads from outside the store: the clock (\<open>Date.now()\<close>), the text of
  \<open>Math.random().toString(36)\<close>, the key the database gives the new order row, and which
  store calls reject.
\<close>

record Env =
  now :: nat
  random36 :: string
  newId :: ident
  throws :: "StoreCall \<Rightarrow> bool"

text \<open>The answers of the order routes, by HTTP status and message.\<close>

datatype Response =
    Created ident Order             \<comment> \<open>201, Order created successfully\<close>
  | ValidationFailed                \<comment> \<open>400, the express-validator errors\<close>
  | AddressNotFound                 \<comment> \<open>404, Address not found\<close>
  | ProductNotFoundOrInactive ident \<comment> \<open>400, Product .. not found or inactive\<close>
  | InsufficientStock string        \<comment> \<open>400, Insufficient stock for ..\<close>
  | OrderCancelled                  \<comment> \<open>200, Order cancelled successfully\<close>
  | OrderNotCancellable             \<comment> \<open>404, Order not found or cannot be cancelled\<close>
  | StatusUpdated Order             \<comment> \<open>200, Order status updated\<close>
  | ServerError                     \<comment> \<open>500, Server error\<close>

section \<open>Order number\<close>

definition digit10 :: "nat \<Rightarrow> char" where
  "digit10 d = ''0123456789'' ! (d mod 10)"

text \<open>The decimal text of a number, as the template literal prints \<open>Date.now()\<close>.\<close>

function decimal :: "nat \<Rightarrow> string" where
  "decimal n = (if n < 10 then [digit10 n] else decimal (n div 10) @ [digit10 (n mod 10)])"
  by pat_completeness auto
termination
  by (relation "measure (\<lambda>n. n)") auto

definition lowerLetters :: string where
  "lowerLetters = ''abcdefghijklmnopqrstuvwxyz''"

definition upperLetters :: string where
  "upperLetters = ''ABCDEFGHIJKLMNOPQRSTUVWXYZ''"

definition toUpperChar :: "char \<Rightarrow> char" where
  "toUpperChar c = (case map_of (zip lowerLetters upperLetters) c of Some u \<Rightarrow> u | None \<Rightarrow> c)"

definition toUpperCase :: "string \<Rightarrow> string" where
  "toUpperCase s = map toUpperChar s"

text \<open>\<open>String.prototype.substr(start, length)\<close> for a start and length that are not negative.\<close>

definition substr :: "nat \<Rightarrow> nat \<Rightarrow> string \<Rightarrow> string" where
  "substr start len s = take len (drop start s)"

definition orderSuffix :: "Env \<Rightarrow> string" where
  "orderSuffix e = toUpperCase (substr 2 6 (random36 e))"

definition generateOrderNumber :: "Env \<Rightarrow> string" where
  "generateOrderNumber e = ''ORD-'' @ decimal (now e) @ ''-'' @ orderSuffix e"

text \<open>
  The texts \<open>Number.prototype.toString(36)\<close> gives for a number in the range of
  \<open>Math.random()\<close>, from 0 up to but not 1: \<open>0\<close> itself, or \<open>0.\<close> and the digits of the
  fraction in base 36, where the last digit is not 0.
\<close>

definition digits36 :: string where
  "digits36 = ''0123456789abcdefghijklmnopqrstuvwxyz''"

definition upperDigits36 :: string where
  "upperDigits36 = ''0123456789ABCDEFGHIJKLMNOPQRSTUVWXYZ''"

definition fractionText36 :: "string \<Rightarrow> bool" where
  "fractionText36 s =
     (s = ''0'' \<or>
      (take 2 s = ''0.'' \<and> drop 2 s \<noteq> [] \<and> list_all (\<lambda>c. c \<in> set digits36) (drop 2 s)
       \<and> last s \<noteq> CHR ''0''))"

section \<open>Pricing\<close>

text \<open>
  The three amounts of the route, from the accumulated subtotal:
  \<open>subtotal >= 500 ? 0 : 50\<close>, \<open>Math.round(subtotal * 0.18 * 100) / 100\<close> and
  \<open>subtotal + shippingCost + taxAmount\<close>, each operator rounding its own result.
\<close>

definition shippingCostOf :: "number \<Rightarrow> number" where
  "shippingCostOf subtotal = (if num_ge subtotal (fl 500) then fl 0 else fl 50)"

definition taxAmountOf :: "number \<Rightarrow> number" where
  "taxAmountOf subtotal =
     num_div (Math_round (num_mul (num_mul subtotal (fl 0.18)) (fl 100))) (fl 100)"

definition totalAmountOf :: "number \<Rightarrow> number" where
  "totalAmountOf subtotal =
     num_add (num_add subtotal (shippingCostOf subtotal)) (taxAmountOf subtotal)"

section \<open>Creating an order\<close>

text \<open>
  The loop over \<open>items\<close> that reads each product, checks it and accumulates \<open>subtotal\<close>
  and \<open>orderItems\<close>. It reads the store and never writes it; a failed check is the
  route's early \<open>return\<close>.
\<close>

fun validateItems ::
  "Env \<Rightarrow> Store \<Rightarrow> nat \<Rightarrow> Item list \<Rightarrow> number \<Rightarrow> OrderItem list
     \<Rightarrow> Response + number \<times> OrderItem list" where
  "validateItems e s k [] subtotal acc = Inr (subtotal, acc)"
| "validateItems e s k (item # rest) subtotal acc =
     (if throws e (ProductFind k) then Inl ServerError
      else case products s (productId item) of
        None \<Rightarrow> Inl (ProductNotFoundOrInactive (productId item))
      | Some product \<Rightarrow>
          if \<not> isActive product then Inl (ProductNotFoundOrInactive (productId item))
          else if stock product < quantity item then Inl (InsufficientStock (name product))
          else validateItems e s (Suc k) rest
                 (num_add subtotal (num_mul (price product) (toNumber (quantity item))))
                 (acc @ [\<lparr>oi_productId = productId item, oi_quantity = quantity item,
                          oi_price = price product, oi_size = item_size item,
                          oi_color = item_color item\<rparr>]))"

text \<open>
  A write inside a transaction callback gives back whether it completed and the store
  with the writes made so far; \<open>False\<close> is a rejected promise, which ends the callback.
\<close>

type_synonym tx = "Store \<Rightarrow> bool \<times> Store"

text \<open>\<open>tx.product.update\<close> with \<open>stock: { decrement: n }\<close> (an increment is a negative \<open>n\<close>).\<close>

definition updateStock :: "ident \<Rightarrow> int \<Rightarrow> tx" where
  "updateStock pid n s =
     (case products s pid of
        None \<Rightarrow> (False, s)
      | Some p \<Rightarrow> (True, s\<lparr>products := (products s)(pid \<mapsto> p\<lparr>stock := stock p - n\<rparr>)\<rparr>))"

text \<open>The loop of the transaction that decrements the stock, one update per line item.\<close>

fun decrementStock :: "Env \<Rightarrow> nat \<Rightarrow> Item list \<Rightarrow> tx" where
  "decrementStock e k [] s = (True, s)"
| "decrementStock e k (item # rest) s =
     (if throws e (ProductUpdate k) then (False, s)
      else case updateStock (productId item) (quantity item) s of
        (False, s') \<Rightarrow> (False, s')
      | (True, s') \<Rightarrow> decrementStock e (Suc k) rest s')"

text \<open>\<open>tx.order.create\<close>: the key of the new row must be free.\<close>

definition orderCreate :: "Env \<Rightarrow> Order \<Rightarrow> tx" where
  "orderCreate e order s =
     (if throws e OrderCreate \<or> orders s (newId e) \<noteq> None then (False, s)
      else (True, s\<lparr>orders := (orders s)(newId e \<mapsto> order)\<rparr>))"

text \<open>The callback given to \<open>prisma.$transaction\<close> by the create route.\<close>

definition createOrderTx :: "Env \<Rightarrow> Order \<Rightarrow> Item list \<Rightarrow> tx" where
  "createOrderTx e order items s =
     (case orderCreate e order s of
        (False, s') \<Rightarrow> (False, s')
      | (True, s') \<Rightarrow> decrementStock e 0 items s')"

text \<open>
  \<open>prisma.$transaction\<close> with a callback: the writes of the callback are kept when it
  returns and undone when it throws.
\<close>

definition transaction :: "tx \<Rightarrow> tx" where
  "transaction body s = (case body s of (True, s') \<Rightarrow> (True, s') | (False, s') \<Rightarrow> (False, s))"

definition notesOrNull :: "string option \<Rightarrow> string option" where
  "notesOrNull n = (case n of None \<Rightarrow> None | Some t \<Rightarrow> if t = [] then None else Some t)"

definition buildOrder :: "Env \<Rightarrow> ident \<Rightarrow> Request \<Rightarrow> number \<Rightarrow> OrderItem list \<Rightarrow> Order" where
  "buildOrder e uid req subtotal ois =
     \<lparr>orderNumber = generateOrderNumber e,
      userId = uid,
      addressId = req_addressId req,
      totalAmount = totalAmountOf subtotal,
      shippingCost = shippingCostOf subtotal,
      taxAmount = taxAmountOf subtotal,
      paymentMethod = req_paymentMethod req,
      order_notes = notesOrNull (req_notes req),
      status = PENDING,
      orderItems = ois\<rparr>"

text \<open>\<open>POST /\<close> of the order routes, for the authenticated user \<open>uid\<close>.\<close>

definition createOrder :: "Env \<Rightarrow> Store \<Rightarrow> ident \<Rightarrow> Request \<Rightarrow> Response \<times> Store" where
  "createOrder e s uid req =
     (if req_items req = [] \<or> req_addressId req = [] \<or> req_paymentMethod req = []
      then (ValidationFailed, s)
      else if throws e AddressFind then (ServerError, s)
      else if addresses s (req_addressId req) \<noteq> Some uid then (AddressNotFound, s)
      else case validateItems e s 0 (req_items req) (fl 0) [] of
        Inl r \<Rightarrow> (r, s)
      | Inr (subtotal, ois) \<Rightarrow>
          (case transaction
                  (createOrderTx e (buildOrder e uid req subtotal ois) (req_items req)) s of
             (False, s') \<Rightarrow> (ServerError, s')
           | (True, s') \<Rightarrow> (Created (newId e) (buildOrder e uid req subtotal ois), s')))"

section \<open>Cancelling an order and the admin status update\<close>

text \<open>The loop of the cancel transaction that restores the stock of every line item.\<close>

fun incrementStock :: "Env \<Rightarrow> nat \<Rightarrow> OrderItem list \<Rightarrow> tx" where
  "incrementStock e k [] s = (True, s)"
| "incrementStock e k (item # rest) s =
     (if throws e (ProductUpdate k) then (False, s)
      else case updateStock (oi_productId item) (- oi_quantity item) s of
        (False, s') \<Rightarrow> (False, s')
      | (True, s') \<Rightarrow> incrementStock e (Suc k) rest s')"

text \<open>\<open>order.update\<close> of the status column.\<close>

definition orderUpdateStatus :: "Env \<Rightarrow> ident \<Rightarrow> OrderStatus \<Rightarrow> tx" where
  "orderUpdateStatus e oid st s =
     (if throws e OrderUpdate then (False, s)
      else case orders s oid of
        None \<Rightarrow> (False, s)
      | Some order \<Rightarrow> (True, s\<lparr>orders := (orders s)(oid \<mapsto> order\<lparr>status := st\<rparr>)\<rparr>))"

text \<open>The callback given to \<open>prisma.$transaction\<close> by the cancel route.\<close>

definition cancelOrderTx :: "Env \<Rightarrow> ident \<Rightarrow> Order \<Rightarrow> tx" where
  "cancelOrderTx e oid order s =
     (case orderUpdateStatus e oid CANCELLED s of
        (False, s') \<Rightarrow> (False, s')
      | (True, s') \<Rightarrow> incrementStock e 0 (orderItems order) s')"

text \<open>
  \<open>PATCH /:id/cancel\<close>, for the authenticated user \<open>uid\<close>. \<open>findFirst\<close> filters on the
  key, the owner and the status \<open>PENDING\<close> together, so the route cannot tell a missing
  order from one it may not cancel.
\<close>

definition cancelOrder :: "Env \<Rightarrow> Store \<Rightarrow> ident \<Rightarrow> ident \<Rightarrow> Response \<times> Store" where
  "cancelOrder e s uid oid =
     (if throws e OrderFind then (ServerError, s)
      else case orders s oid of
        None \<Rightarrow> (OrderNotCancellable, s)
      | Some order \<Rightarrow>
          if userId order \<noteq> uid \<or> status order \<noteq> PENDING then (OrderNotCancellable, s)
          else (case transaction (cancelOrderTx e oid order) s of
                  (False, s') \<Rightarrow> (ServerError, s')
                | (True, s') \<Rightarrow> (OrderCancelled, s')))"

text \<open>
  \<open>PATCH /orders/:id/status\<close> of the admin routes: a single \<open>order.update\<close> with the
  status of the request body, whatever the status of the row.
\<close>

definition updateOrderStatus :: "Env \<Rightarrow> Store \<Rightarrow> ident \<Rightarrow> OrderStatus \<Rightarrow> Response \<times> Store" where
  "updateOrderStatus e s oid st =
     (case orderUpdateStatus e oid st s of
        (False, s') \<Rightarrow> (ServerError, s')
      | (True, s') \<Rightarrow> (case orders s' oid of
                        None \<Rightarrow> (ServerError, s')
                      | Some order \<Rightarrow> (StatusUpdated order, s')))"

text \<open>A call of one of the three routes, and a run of calls one after the other.\<close>

datatype Call =
    CreateOrder Env ident Request
  | CancelOrder Env ident ident
  | UpdateOrderStatus Env ident OrderStatus

fun step :: "Store \<Rightarrow> Call \<Rightarrow> Store" where
  "step s (CreateOrder e uid req) = snd (createOrder e s uid req)"
| "step s (CancelOrder e uid oid) = snd (cancelOrder e s uid oid)"
| "step s (UpdateOrderStatus e oid st) = snd (updateOrderStatus e s oid st)"

definition run :: "Store \<Rightarrow> Call list \<Rightarrow> Store" where
  "run s cs = foldl step s cs"

section \<open>Connection manager\<close>

text \<open>
  The fields of the \<open>DatabaseConnection\<close> singleton that its methods read and write.
\<close>

record DatabaseConnection =
  isConnected :: bool
  connectionRetries :: nat
  maxRetries :: nat

definition constructor :: DatabaseConnection where
  "constructor = \<lparr>isConnected = False, connectionRetries = 0, maxRetries = 5\<rparr>"

text \<open>
  The database is a sequence of answers: \<open>db k\<close> says whether probe number \<open>k\<close> (a
  \<open>$connect\<close> with its \<open>SELECT 1\<close>, or the \<open>SELECT 1\<close> of the health check) goes through.
  A method gets the number of its first probe and gives back the number of the next one,
  with the waits of \<open>delay\<close> in milliseconds in the order they happened. \<open>Throw k\<close> is the
  error of probe \<open>k\<close>, rejected to the caller.
\<close>

datatype 'a outcome = Return 'a | Throw nat

function testConnection ::
  "(nat \<Rightarrow> bool) \<Rightarrow> nat \<Rightarrow> DatabaseConnection
     \<Rightarrow> bool outcome \<times> DatabaseConnection \<times> nat list \<times> nat" where
  "testConnection db k c =
     (if db k then
        (Return True, c\<lparr>isConnected := True, connectionRetries := 0\<rparr>, [], Suc k)
      else if connectionRetries c < maxRetries c then
        (case testConnection db (Suc k)
                (c\<lparr>isConnected := False, connectionRetries := connectionRetries c + 1\<rparr>) of
           (r, c', ds, k') \<Rightarrow> (r, c', 2000 * (connectionRetries c + 1) # ds, k'))
      else (Throw k, c\<lparr>isConnected := False\<rparr>, [], Suc k))"
  by pat_completeness auto
termination
  by (relation "measure (\<lambda>(db, k, c). maxRetries c - connectionRetries c)") auto

definition healthCheck ::
  "(nat \<Rightarrow> bool) \<Rightarrow> nat \<Rightarrow> DatabaseConnection \<Rightarrow> bool \<times> DatabaseConnection \<times> nat list \<times> nat" where
  "healthCheck db k c =
     (if \<not> isConnected c then
        (case testConnection db k c of
           (Throw err, c', ds, k') \<Rightarrow> (False, c'\<lparr>isConnected := False\<rparr>, ds, k')
         | (Return r, c', ds, k') \<Rightarrow>
             if db k' then (True, c', ds, Suc k')
             else (False, c'\<lparr>isConnected := False\<rparr>, ds, Suc k'))
      else if db k then (True, c, [], Suc k)
      else (False, c\<lparr>isConnected := False\<rparr>, [], Suc k))"

text \<open>One firing of the 30 second interval of \<open>setupAutoReconnect\<close>.\<close>

definition autoReconnect ::
  "(nat \<Rightarrow> bool) \<Rightarrow> nat \<Rightarrow> DatabaseConnection \<Rightarrow> DatabaseConnection \<times> nat list \<times> nat" where
  "autoReconnect db k c =
     (if \<not> isConnected c then
        (case testConnection db k c of (r, c', ds, k') \<Rightarrow> (c', ds, k'))
      else (c, [], k))"

text \<open>\<open>initializeServer\<close>: listen, or \<open>process.exit(1)\<close>.\<close>

datatype Startup = Listening | Exit nat

definition initializeServer :: "(nat \<Rightarrow> bool) \<Rightarrow> nat \<Rightarrow> DatabaseConnection \<Rightarrow> Startup" where
  "initializeServer db k c =
     (case testConnection db k c of
        (Return r, c', ds, k') \<Rightarrow> Listening
      | (Throw err, c', ds, k') \<Rightarrow> Exit 1)"

text \<open>The \<open>ensureDbConnection\<close> middleware in front of every \<open>/api\<close> route.\<close>

datatype Middleware = Next | Status nat

definition ensureDbConnection :: "(nat \<Rightarrow> bool) \<Rightarrow> nat \<Rightarrow> DatabaseConnection \<Rightarrow> Middleware" where
  "ensureDbConnection db k c =
     (case healthCheck db k c of
        (isHealthy, c', ds, k') \<Rightarrow> if \<not> isHealthy then Status 503 else Next)"

section \<open>Quantities the properties are stated with\<close>

text \<open>
  The price a line item is charged at: the \<open>price\<close> column of its product in the store
  the request is validated against.
\<close>

definition unitPrice :: "Store \<Rightarrow> ident \<Rightarrow> number" where
  "unitPrice s pid = (case products s pid of None \<Rightarrow> fl 0 | Some p \<Rightarrow> price p)"

text \<open>
  The sum over the line items of unit price times quantity, added up from the left in
  the order of the request, from a given start.
\<close>

definition subtotalFrom :: "number \<Rightarrow> Store \<Rightarrow> Item list \<Rightarrow> number" where
  "subtotalFrom start s items =
     foldl (\<lambda>sum item. num_add sum (num_mul (unitPrice s (productId item))
                                         (toNumber (quantity item)))) start items"

definition subtotalOf :: "Store \<Rightarrow> Item list \<Rightarrow> number" where
  "subtotalOf s items = subtotalFrom (fl 0) s items"

text \<open>The same sum over the rows of an order.\<close>

definition rowsTotal :: "OrderItem list \<Rightarrow> number" where
  "rowsTotal rows =
     foldl (\<lambda>sum row. num_add sum (num_mul (oi_price row) (toNumber (oi_quantity row))))
       (fl 0) rows"

text \<open>The three amounts of a created order.\<close>

definition amounts :: "Response \<Rightarrow> (number \<times> number \<times> number) option" where
  "amounts r =
     (case r of
        Created oid order \<Rightarrow> Some (shippingCost order, taxAmount order, totalAmount order)
      | _ \<Rightarrow> None)"

text \<open>The order item row of a request line item.\<close>

definition lineItem :: "Store \<Rightarrow> Item \<Rightarrow> OrderItem" where
  "lineItem s item =
     \<lparr>oi_productId = productId item, oi_quantity = quantity item,
      oi_price = unitPrice s (productId item), oi_size = item_size item,
      oi_color = item_color item\<rparr>"

text \<open>The total quantity the line items of a request ask of one product.\<close>

definition reserved :: "ident \<Rightarrow> Item list \<Rightarrow> int" where
  "reserved pid items = sum_list (map quantity (filter (\<lambda>item. productId item = pid) items))"

text \<open>The total quantity the line items of an order hold of one product.\<close>

definition released :: "ident \<Rightarrow> OrderItem list \<Rightarrow> int" where
  "released pid ois =
     sum_list (map oi_quantity (filter (\<lambda>item. oi_productId item = pid) ois))"

text \<open>The store with the stock of every product changed by a function of its key.\<close>

definition adjustStock :: "(ident \<Rightarrow> int) \<Rightarrow> Store \<Rightarrow> Store" where
  "adjustStock d s =
     s\<lparr>products := (\<lambda>pid. map_option (\<lambda>p. p\<lparr>stock := stock p + d pid\<rparr>) (products s pid))\<rparr>"

text \<open>The stock of a product, when it is in the store.\<close>

definition stockOf :: "Store \<Rightarrow> ident \<Rightarrow> int option" where
  "stockOf s pid = map_option stock (products s pid)"

text \<open>The status of an order, when it is in the store.\<close>

definition statusOf :: "Store \<Rightarrow> ident \<Rightarrow> OrderStatus option" where
  "statusOf s oid = map_option status (orders s oid)"

text \<open>The store with the sale price of every product replaced.\<close>

definition setSalePrices :: "(ident \<Rightarrow> number option) \<Rightarrow> Store \<Rightarrow> Store" where
  "setSalePrices f s =
     s\<lparr>products := (\<lambda>pid. map_option (\<lambda>p. p\<lparr>salePrice := f pid\<rparr>) (products s pid))\<rparr>"

text \<open>The calls of the two user routes, as opposed to the admin route.\<close>

fun userCall :: "Call \<Rightarrow> bool" where
  "userCall (CreateOrder e uid req) = True"
| "userCall (CancelOrder e uid oid) = True"
| "userCall (UpdateOrderStatus e oid st) = False"

text \<open>
  Referential integrity of the order item table: every row of every order names a
  product of the store (the foreign key behind the \<open>product\<close> relation of an order item).
\<close>

definition referential :: "Store \<Rightarrow> bool" where
  "referential s =
     (\<forall>oid order. orders s oid = Some order \<longrightarrow>
        (\<forall>row \<in> set (orderItems order). products s (oi_productId row) \<noteq> None))"

text \<open>No store call of the environment rejects.\<close>

definition noFaults :: "Env \<Rightarrow> bool" where
  "noFaults e = (\<forall>c. \<not> throws e c)"

section \<open>A small shop\<close>

text \<open>
  One active product with stock 10 at price 100 (and a sale price of 80), one address of
  user \<open>u1\<close>, no orders; requests of that user for given quantities of the product.
\<close>

definition shirt :: Product where
  "shirt = \<lparr>name = ''Shirt'', price = Finite 100, salePrice = Some (Finite 80), stock = 10,
            isActive = True\<rparr>"

definition shop :: Store where
  "shop = \<lparr>products = [''p1'' \<mapsto> shirt], orders = Map.empty, addresses = [''a1'' \<mapsto> ''u1'']\<rparr>"

definition quiet :: Env where
  "quiet = \<lparr>now = 1700000000000, random36 = ''0.4fzyo82mvyr'', newId = ''o1'',
            throws = (\<lambda>c. False)\<rparr>"

text \<open>The shop with the shirt at another price.\<close>

definition shopAt :: "real \<Rightarrow> Store" where
  "shopAt x = shop\<lparr>products := [''p1'' \<mapsto> shirt\<lparr>price := fl x\<rparr>]\<rparr>"

definition line :: "int \<Rightarrow> Item" where
  "line q = \<lparr>productId = ''p1'', quantity = q, item_size = None, item_color = None\<rparr>"

definition request :: "int list \<Rightarrow> Request" where
  "request qs = \<lparr>req_items = map line qs, req_addressId = ''a1'', req_paymentMethod = ''COD'',
                 req_notes = None\<rparr>"

section \<open>The connection manager retries a bounded number of times\<close>

declare testConnection.simps [simp del]

declare decimal.simps [simp del]

declare bitLength.simps [simp del]

text \<open>
  \<open>testConnection\<close> is a total function: the recursion is bounded by the retries left,
  \<open>maxRetries - connectionRetries\<close>. Its two possible runs are computed in closed form:
  every probe fails until the retries are used up, or probe number \<open>m\<close> is the first to
  go through.
\<close>

lemma testConnection_exhausted:
  "connectionRetries c \<le> maxRetries c \<Longrightarrow>
   (\<forall>j \<le> maxRetries c - connectionRetries c. \<not> db (k + j)) \<Longrightarrow>
   testConnection db k c =
     (Throw (k + (maxRetries c - connectionRetries c)),
      c\<lparr>isConnected := False, connectionRetries := maxRetries c\<rparr>,
      map (\<lambda>i. 2000 * i) [connectionRetries c + 1 ..< maxRetries c + 1],
      Suc (k + (maxRetries c - connectionRetries c)))"
proof (induction db k c rule: testConnection.induct)
  case (1 db k c)
  from "1.prems"(2) have nk: "\<not> db k" by (metis add.right_neutral zero_le)
  show ?case
  proof (cases "connectionRetries c < maxRetries c")
    case True
    let ?c2 = "c\<lparr>isConnected := False, connectionRetries := connectionRetries c + 1\<rparr>"
    have later: "\<forall>j \<le> maxRetries ?c2 - connectionRetries ?c2. \<not> db (Suc k + j)"
    proof (intro allI impI)
      fix j assume "j \<le> maxRetries ?c2 - connectionRetries ?c2"
      with True have "Suc j \<le> maxRetries c - connectionRetries c" by simp
      with "1.prems"(2) have "\<not> db (k + Suc j)" by blast
      then show "\<not> db (Suc k + j)" by simp
    qed
    from True have le: "connectionRetries ?c2 \<le> maxRetries ?c2" by simp
    have ih: "testConnection db (Suc k) ?c2 =
       (Throw (Suc k + (maxRetries ?c2 - connectionRetries ?c2)),
        ?c2\<lparr>isConnected := False, connectionRetries := maxRetries ?c2\<rparr>,
        map (\<lambda>i. 2000 * i) [connectionRetries ?c2 + 1 ..< maxRetries ?c2 + 1],
        Suc (Suc k + (maxRetries ?c2 - connectionRetries ?c2)))"
      using "1.IH" [OF nk True le later] .
    from True have upt: "[connectionRetries c + 1 ..< maxRetries c + 1] =
        (connectionRetries c + 1) # [connectionRetries c + 2 ..< maxRetries c + 1]"
      by (simp add: upt_conv_Cons)
    from True have arith: "Suc k + (maxRetries c - (connectionRetries c + 1)) = k + (maxRetries c - connectionRetries c)"
      by simp
    show ?thesis
      using nk True ih upt arith
      by (subst testConnection.simps) simp
  next
    case False
    with "1.prems"(1) have eq: "connectionRetries c = maxRetries c" by simp
    show ?thesis
      using nk eq by (subst testConnection.simps) simp
  qed
qed

lemma testConnection_succeeds:
  "m \<le> maxRetries c - connectionRetries c \<Longrightarrow>
   (\<forall>j < m. \<not> db (k + j)) \<Longrightarrow> db (k + m) \<Longrightarrow>
   testConnection db k c =
     (Return True, c\<lparr>isConnected := True, connectionRetries := 0\<rparr>,
      map (\<lambda>i. 2000 * i) [connectionRetries c + 1 ..< connectionRetries c + 1 + m],
      Suc (k + m))"
proof (induction m arbitrary: k c)
  case 0
  then show ?case by (subst testConnection.simps) simp
next
  case (Suc m)
  let ?c2 = "c\<lparr>isConnected := False, connectionRetries := connectionRetries c + 1\<rparr>"
  from Suc.prems(2) have nk: "\<not> db k" by (metis add.right_neutral zero_less_Suc)
  from Suc.prems(1) have lt: "connectionRetries c < maxRetries c" by simp
  from Suc.prems(1) have le: "m \<le> maxRetries ?c2 - connectionRetries ?c2" by simp
  have later: "\<forall>j < m. \<not> db (Suc k + j)"
  proof (intro allI impI)
    fix j assume "j < m"
    then have "Suc j < Suc m" by simp
    with Suc.prems(2) have "\<not> db (k + Suc j)" by blast
    then show "\<not> db (Suc k + j)" by simp
  qed
  from Suc.prems(3) have hit: "db (Suc k + m)" by simp
  have ih: "testConnection db (Suc k) ?c2 =
     (Return True, ?c2\<lparr>isConnected := True, connectionRetries := 0\<rparr>,
      map (\<lambda>i. 2000 * i) [connectionRetries ?c2 + 1 ..< connectionRetries ?c2 + 1 + m],
      Suc (Suc k + m))"
    using Suc.IH [OF le later hit] .
  have upt: "[connectionRetries c + 1 ..< connectionRetries c + 1 + Suc m] =
      (connectionRetries c + 1) # [connectionRetries c + 2 ..< connectionRetries c + 2 + m]"
    by (simp add: upt_conv_Cons)
  show ?case
    using nk lt ih upt by (subst testConnection.simps) simp
qed


lemma testConnection_Throw:
  "connectionRetries c \<le> maxRetries c \<Longrightarrow>
   testConnection db k c = (Throw err, c', ds, k') \<Longrightarrow>
   connectionRetries c' = maxRetries c \<and> maxRetries c' = maxRetries c \<and> \<not> isConnected c'"
proof (induction db k c arbitrary: ds rule: testConnection.induct)
  case (1 db k c)
  from "1.prems"(2) have nk: "\<not> db k"
    by (subst (asm) testConnection.simps) (auto split: if_splits)
  show ?case
  proof (cases "connectionRetries c < maxRetries c")
    case True
    let ?c2 = "c\<lparr>isConnected := False, connectionRetries := connectionRetries c + 1\<rparr>"
    from "1.prems"(2) nk True obtain ds2 where
      rec: "testConnection db (Suc k) ?c2 = (Throw err, c', ds2, k')"
      by (subst (asm) testConnection.simps) (auto split: prod.splits)
    from True have le: "connectionRetries ?c2 \<le> maxRetries ?c2" by simp
    from "1.IH" [OF nk True le rec] show ?thesis by simp
  next
    case False
    with "1.prems" nk show ?thesis
      by (subst (asm) testConnection.simps) auto
  qed
qed

text \<open>
  C7. With the bound of 5 retries, a run of \<open>testConnection\<close> in which every probe fails
  retries until the counter is 5, waits 2000 ms times the value of the counter before
  each retry (2000, 4000, 6000, 8000, 10000 from a fresh manager) and then rejects with
  the error of the last probe; the rejection stops the server at start-up and makes the
  middleware answer 503. A run whose probe \<open>m\<close> is the first to go through, after at most
  5 retries, returns true, sets the counter back to 0 and marks the manager connected.
\<close>

theorem C7_testConnection_bounded_retry:
  assumes "maxRetries c = 5" and "connectionRetries c \<le> 5"
  shows
    "((\<forall>j \<le> 5 - connectionRetries c. \<not> db (k + j)) \<longrightarrow>
        testConnection db k c =
          (Throw (k + (5 - connectionRetries c)),
           c\<lparr>isConnected := False, connectionRetries := 5\<rparr>,
           map (\<lambda>i. 2000 * i) [connectionRetries c + 1 ..< 6],
           Suc (k + (5 - connectionRetries c)))
        \<and> initializeServer db k c = Exit 1
        \<and> (\<not> isConnected c \<longrightarrow> ensureDbConnection db k c = Status 503))
     \<and> (\<forall>m \<le> 5 - connectionRetries c. (\<forall>j < m. \<not> db (k + j)) \<and> db (k + m) \<longrightarrow>
        testConnection db k c =
          (Return True, c\<lparr>isConnected := True, connectionRetries := 0\<rparr>,
           map (\<lambda>i. 2000 * i) [connectionRetries c + 1 ..< connectionRetries c + 1 + m],
           Suc (k + m))
        \<and> initializeServer db k c = Listening)"
proof (intro conjI impI allI)
  assume fails: "\<forall>j \<le> 5 - connectionRetries c. \<not> db (k + j)"
  from assms have le: "connectionRetries c \<le> maxRetries c" by simp
  from assms fails have fails': "\<forall>j \<le> maxRetries c - connectionRetries c. \<not> db (k + j)" by simp
  from testConnection_exhausted [OF le fails'] assms
  show tc: "testConnection db k c =
          (Throw (k + (5 - connectionRetries c)),
           c\<lparr>isConnected := False, connectionRetries := 5\<rparr>,
           map (\<lambda>i. 2000 * i) [connectionRetries c + 1 ..< 6],
           Suc (k + (5 - connectionRetries c)))" by simp
  from tc show "initializeServer db k c = Exit 1" by (simp add: initializeServer_def)
  assume "\<not> isConnected c"
  with tc show "ensureDbConnection db k c = Status 503"
    by (simp add: ensureDbConnection_def healthCheck_def)
next
  fix m
  assume m: "m \<le> 5 - connectionRetries c" and run: "(\<forall>j < m. \<not> db (k + j)) \<and> db (k + m)"
  from m assms have m': "m \<le> maxRetries c - connectionRetries c" by simp
  from run have a: "\<forall>j < m. \<not> db (k + j)" and b: "db (k + m)" by simp_all
  from testConnection_succeeds [OF m' a b]
  show tc: "testConnection db k c =
          (Return True, c\<lparr>isConnected := True, connectionRetries := 0\<rparr>,
           map (\<lambda>i. 2000 * i) [connectionRetries c + 1 ..< connectionRetries c + 1 + m],
           Suc (k + m))" .
  from tc show "initializeServer db k c = Listening" by (simp add: initializeServer_def)
qed

theorem C7_witness:
  "maxRetries constructor = 5 \<and> connectionRetries constructor \<le> 5 \<and>
   testConnection (\<lambda>k. False) 0 constructor =
     (Throw 5, \<lparr>isConnected = False, connectionRetries = 5, maxRetries = 5\<rparr>,
      [2000, 4000, 6000, 8000, 10000], 6) \<and>
   initializeServer (\<lambda>k. False) 0 constructor = Exit 1 \<and>
   ensureDbConnection (\<lambda>k. False) 0 constructor = Status 503 \<and>
   (2::nat) \<le> 5 - connectionRetries constructor \<and>
   testConnection (\<lambda>k. k = 2) 0 constructor =
     (Return True, \<lparr>isConnected = True, connectionRetries = 0, maxRetries = 5\<rparr>,
      [2000, 4000], 3)"
proof -
  have h1: "maxRetries constructor = 5" and h2: "connectionRetries constructor \<le> 5"
    by (simp_all add: constructor_def)
  have f: "\<forall>j \<le> 5 - connectionRetries constructor. \<not> (\<lambda>k. False) (0 + j)" by simp
  have g: "(2::nat) \<le> 5 - connectionRetries constructor"
    "(\<forall>j < 2. \<not> (\<lambda>k::nat. k = 2) (0 + j)) \<and> (\<lambda>k::nat. k = 2) (0 + 2)"
    by (simp_all add: constructor_def)
  from C7_testConnection_bounded_retry [OF h1 h2, of "\<lambda>k. False" 0] f
  have a: "testConnection (\<lambda>k. False) 0 constructor =
     (Throw 5, \<lparr>isConnected = False, connectionRetries = 5, maxRetries = 5\<rparr>,
      [2000, 4000, 6000, 8000, 10000], 6)"
    "initializeServer (\<lambda>k. False) 0 constructor = Exit 1"
    "ensureDbConnection (\<lambda>k. False) 0 constructor = Status 503"
    by (simp_all add: constructor_def upt_conv_Cons)
  from C7_testConnection_bounded_retry [OF h1 h2, of "\<lambda>k. k = 2" 0] g
  have b: "testConnection (\<lambda>k. k = 2) 0 constructor =
     (Return True, \<lparr>isConnected = True, connectionRetries = 0, maxRetries = 5\<rparr>,
      [2000, 4000], 3)"
    by (simp add: constructor_def upt_conv_Cons)
  from h1 h2 f g a b show ?thesis by simp
qed

text \<open>
  C9. When \<open>testConnection\<close> rejects, it leaves the counter at the maximum 5 and the
  manager disconnected, and nothing resets the counter on failure. From that state every
  later \<open>testConnection\<close>, called directly, by \<open>healthCheck\<close> or by a firing of the
  reconnect interval, makes exactly one connection attempt without waiting. When the
  attempt fails, \<open>testConnection\<close> rejects again and the manager is unchanged, counter 5
  (\<open>healthCheck\<close> then answers false, the interval swallows the error). When it goes
  through, the counter is back at 0 and the manager connected (\<open>healthCheck\<close> then makes
  its own liveness query, and marks the manager disconnected again if that fails).
\<close>

theorem C9_counter_stays_at_maximum:
  assumes "maxRetries c = 5" and "connectionRetries c \<le> 5"
  shows
    "(\<forall>err c' ds k'. testConnection db k c = (Throw err, c', ds, k') \<longrightarrow>
        connectionRetries c' = 5 \<and> maxRetries c' = 5 \<and> \<not> isConnected c' \<and>
        (\<forall>db2 k2.
           testConnection db2 k2 c' =
             (if db2 k2
              then (Return True, c'\<lparr>isConnected := True, connectionRetries := 0\<rparr>, [], Suc k2)
              else (Throw k2, c', [], Suc k2)) \<and>
           healthCheck db2 k2 c' =
             (if db2 k2
              then (if db2 (Suc k2)
                    then (True, c'\<lparr>isConnected := True, connectionRetries := 0\<rparr>, [],
                          Suc (Suc k2))
                    else (False, c'\<lparr>isConnected := False, connectionRetries := 0\<rparr>, [],
                          Suc (Suc k2)))
              else (False, c', [], Suc k2)) \<and>
           autoReconnect db2 k2 c' =
             (if db2 k2
              then (c'\<lparr>isConnected := True, connectionRetries := 0\<rparr>, [], Suc k2)
              else (c', [], Suc k2))))"
proof (intro allI impI)
  fix err c' ds k'
  assume thr: "testConnection db k c = (Throw err, c', ds, k')"
  from assms have le: "connectionRetries c \<le> maxRetries c" by simp
  from testConnection_Throw [OF le thr] assms
  have st: "connectionRetries c' = 5" "maxRetries c' = 5" "\<not> isConnected c'" by simp_all
  have one: "testConnection db2 k2 c' =
             (if db2 k2
              then (Return True, c'\<lparr>isConnected := True, connectionRetries := 0\<rparr>, [], Suc k2)
              else (Throw k2, c', [], Suc k2))" for db2 k2
    using st by (subst testConnection.simps) simp
  have hc: "healthCheck db2 k2 c' =
             (if db2 k2
              then (if db2 (Suc k2)
                    then (True, c'\<lparr>isConnected := True, connectionRetries := 0\<rparr>, [],
                          Suc (Suc k2))
                    else (False, c'\<lparr>isConnected := False, connectionRetries := 0\<rparr>, [],
                          Suc (Suc k2)))
              else (False, c', [], Suc k2))" for db2 k2
    using st one [of db2 k2] by (simp add: healthCheck_def)
  have ar: "autoReconnect db2 k2 c' =
             (if db2 k2
              then (c'\<lparr>isConnected := True, connectionRetries := 0\<rparr>, [], Suc k2)
              else (c', [], Suc k2))" for db2 k2
    using st one [of db2 k2] by (simp add: autoReconnect_def)
  from st one hc ar
  show "connectionRetries c' = 5 \<and> maxRetries c' = 5 \<and> \<not> isConnected c' \<and>
        (\<forall>db2 k2.
           testConnection db2 k2 c' =
             (if db2 k2
              then (Return True, c'\<lparr>isConnected := True, connectionRetries := 0\<rparr>, [], Suc k2)
              else (Throw k2, c', [], Suc k2)) \<and>
           healthCheck db2 k2 c' =
             (if db2 k2
              then (if db2 (Suc k2)
                    then (True, c'\<lparr>isConnected := True, connectionRetries := 0\<rparr>, [],
                          Suc (Suc k2))
                    else (False, c'\<lparr>isConnected := False, connectionRetries := 0\<rparr>, [],
                          Suc (Suc k2)))
              else (False, c', [], Suc k2)) \<and>
           autoReconnect db2 k2 c' =
             (if db2 k2
              then (c'\<lparr>isConnected := True, connectionRetries := 0\<rparr>, [], Suc k2)
              else (c', [], Suc k2)))"
    by blast
qed

theorem C9_witness:
  "maxRetries constructor = 5 \<and> connectionRetries constructor \<le> 5 \<and>
   testConnection (\<lambda>k. False) 0 constructor =
     (Throw 5, \<lparr>isConnected = False, connectionRetries = 5, maxRetries = 5\<rparr>,
      [2000, 4000, 6000, 8000, 10000], 6) \<and>
   testConnection (\<lambda>k. False) 6 \<lparr>isConnected = False, connectionRetries = 5, maxRetries = 5\<rparr> =
     (Throw 6, \<lparr>isConnected = False, connectionRetries = 5, maxRetries = 5\<rparr>, [], 7) \<and>
   healthCheck (\<lambda>k. False) 6 \<lparr>isConnected = False, connectionRetries = 5, maxRetries = 5\<rparr> =
     (False, \<lparr>isConnected = False, connectionRetries = 5, maxRetries = 5\<rparr>, [], 7) \<and>
   autoReconnect (\<lambda>k. False) 6 \<lparr>isConnected = False, connectionRetries = 5, maxRetries = 5\<rparr> =
     (\<lparr>isConnected = False, connectionRetries = 5, maxRetries = 5\<rparr>, [], 7) \<and>
   testConnection (\<lambda>k. True) 7 \<lparr>isConnected = False, connectionRetries = 5, maxRetries = 5\<rparr> =
     (Return True, \<lparr>isConnected = True, connectionRetries = 0, maxRetries = 5\<rparr>, [], 8) \<and>
   healthCheck (\<lambda>k. True) 7 \<lparr>isConnected = False, connectionRetries = 5, maxRetries = 5\<rparr> =
     (True, \<lparr>isConnected = True, connectionRetries = 0, maxRetries = 5\<rparr>, [], 9) \<and>
   healthCheck (\<lambda>k. k = 7) 7 \<lparr>isConnected = False, connectionRetries = 5, maxRetries = 5\<rparr> =
     (False, \<lparr>isConnected = False, connectionRetries = 0, maxRetries = 5\<rparr>, [], 9) \<and>
   autoReconnect (\<lambda>k. True) 7 \<lparr>isConnected = False, connectionRetries = 5, maxRetries = 5\<rparr> =
     (\<lparr>isConnected = True, connectionRetries = 0, maxRetries = 5\<rparr>, [], 8)"
proof -
  let ?c5 = "\<lparr>isConnected = False, connectionRetries = 5, maxRetries = 5\<rparr>"
  have h1: "maxRetries constructor = 5" and h2: "connectionRetries constructor \<le> 5"
    by (simp_all add: constructor_def)
  have le: "connectionRetries constructor \<le> maxRetries constructor"
    by (simp add: constructor_def)
  have fails: "\<forall>j \<le> maxRetries constructor - connectionRetries constructor.
      \<not> (\<lambda>k. False) (0 + j)" by simp
  have thr: "testConnection (\<lambda>k. False) 0 constructor =
     (Throw 5, ?c5, [2000, 4000, 6000, 8000, 10000], 6)"
    using testConnection_exhausted [OF le fails]
    by (simp add: constructor_def upt_conv_Cons)
  from C9_counter_stays_at_maximum [OF h1 h2, of "\<lambda>k. False" 0] thr
  have later: "testConnection db2 k2 ?c5 =
         (if db2 k2
          then (Return True, ?c5\<lparr>isConnected := True, connectionRetries := 0\<rparr>, [], Suc k2)
          else (Throw k2, ?c5, [], Suc k2)) \<and>
       healthCheck db2 k2 ?c5 =
         (if db2 k2
          then (if db2 (Suc k2)
                then (True, ?c5\<lparr>isConnected := True, connectionRetries := 0\<rparr>, [],
                      Suc (Suc k2))
                else (False, ?c5\<lparr>isConnected := False, connectionRetries := 0\<rparr>, [],
                      Suc (Suc k2)))
          else (False, ?c5, [], Suc k2)) \<and>
       autoReconnect db2 k2 ?c5 =
         (if db2 k2
          then (?c5\<lparr>isConnected := True, connectionRetries := 0\<rparr>, [], Suc k2)
          else (?c5, [], Suc k2))" for db2 k2
    by blast
  from later [of "\<lambda>k. False" 6] later [of "\<lambda>k. True" 7] later [of "\<lambda>k. k = 7" 7] h1 h2 thr
  show ?thesis by simp
qed

section \<open>What the loops of the order routes compute\<close>

text \<open>
  The validation loop either stops at the first line item that fails a check, or gives
  the subtotal and the order item rows of all line items, each of which then names an
  active product with enough stock for that line item alone.
\<close>

lemma validateItems_Inr:
  "validateItems e s k items sub acc = Inr (sub', ois) \<Longrightarrow>
   sub' = subtotalFrom sub s items \<and> ois = acc @ map (lineItem s) items \<and>
   (\<forall>item \<in> set items. \<exists>p. products s (productId item) = Some p \<and> isActive p \<and>
       quantity item \<le> stock p)"
proof (induction items arbitrary: k sub acc)
  case Nil
  then show ?case by (simp add: subtotalFrom_def)
next
  case (Cons item rest)
  from Cons.prems obtain p where
    p: "products s (productId item) = Some p" "isActive p" "quantity item \<le> stock p"
    and rec: "validateItems e s (Suc k) rest
                (num_add sub (num_mul (price p) (toNumber (quantity item))))
                (acc @ [\<lparr>oi_productId = productId item, oi_quantity = quantity item,
                          oi_price = price p, oi_size = item_size item,
                          oi_color = item_color item\<rparr>]) = Inr (sub', ois)"
    by (auto split: if_splits option.splits)
  from Cons.IH [OF rec] p show ?case
    by (simp add: subtotalFrom_def lineItem_def unitPrice_def)
qed

lemma validateItems_passes:
  "\<forall>j. \<not> throws e (ProductFind j) \<Longrightarrow>
   \<forall>item \<in> set items. \<exists>p. products s (productId item) = Some p \<and> isActive p \<and>
       quantity item \<le> stock p \<Longrightarrow>
   validateItems e s k items sub acc =
     Inr (subtotalFrom sub s items, acc @ map (lineItem s) items)"
proof (induction items arbitrary: k sub acc)
  case Nil
  then show ?case by (simp add: subtotalFrom_def)
next
  case (Cons item rest)
  from Cons.prems(2) obtain p where
    p: "products s (productId item) = Some p" "isActive p" "quantity item \<le> stock p"
    by auto
  from Cons.prems(2) have rest: "\<forall>item \<in> set rest. \<exists>p. products s (productId item) = Some p \<and>
      isActive p \<and> quantity item \<le> stock p" by simp
  from Cons.IH [OF Cons.prems(1) rest] Cons.prems(1) p show ?case
    by (simp add: subtotalFrom_def lineItem_def unitPrice_def)
qed

lemma adjustStock_fields [simp]:
  "orders (adjustStock d s) = orders s"
  "addresses (adjustStock d s) = addresses s"
  "products (adjustStock d s) pid = map_option (\<lambda>p. p\<lparr>stock := stock p + d pid\<rparr>) (products s pid)"
  by (simp_all add: adjustStock_def)

lemma reserved_Cons:
  "reserved pid (item # rest) =
     (if productId item = pid then quantity item else 0) + reserved pid rest"
  by (simp add: reserved_def)

lemma decrementStock_completes:
  "\<forall>j. \<not> throws e (ProductUpdate j) \<Longrightarrow>
   \<forall>item \<in> set items. products s (productId item) \<noteq> None \<Longrightarrow>
   decrementStock e k items s = (True, adjustStock (\<lambda>pid. - reserved pid items) s)"
proof (induction items arbitrary: k s)
  case Nil
  have "adjustStock (\<lambda>pid. - reserved pid []) s = s"
    by (simp add: adjustStock_def reserved_def option.map_ident fun_eq_iff cong: option.map_cong)
  then show ?case by simp
next
  case (Cons item rest)
  from Cons.prems(2) obtain p where p: "products s (productId item) = Some p" by auto
  let ?s1 = "s\<lparr>products := (products s)(productId item \<mapsto> p\<lparr>stock := stock p - quantity item\<rparr>)\<rparr>"
  from p have upd: "updateStock (productId item) (quantity item) s = (True, ?s1)"
    by (simp add: updateStock_def)
  from Cons.prems(2) have rest: "\<forall>i \<in> set rest. products ?s1 (productId i) \<noteq> None" by simp
  have eq: "adjustStock (\<lambda>pid. - reserved pid rest) ?s1 =
        adjustStock (\<lambda>pid. - reserved pid (item # rest)) s"
    using p by (auto simp: adjustStock_def reserved_Cons fun_eq_iff)
  from Cons.IH [OF Cons.prems(1) rest] Cons.prems(1) upd eq show ?case by simp
qed


lemma validateItems_Inl:
  "validateItems e s k items sub acc = Inl r \<Longrightarrow>
   r = ServerError \<or> (\<exists>pid. r = ProductNotFoundOrInactive pid) \<or> (\<exists>n. r = InsufficientStock n)"
  by (induction items arbitrary: k sub acc) (auto split: if_splits option.splits)

lemma createOrder_Created:
  assumes "createOrder e s uid req = (Created oid order, s')"
  shows "oid = newId e"
    and "order = buildOrder e uid req (subtotalOf s (req_items req))
                   (map (lineItem s) (req_items req))"
    and "validateItems e s 0 (req_items req) (fl 0) [] =
           Inr (subtotalOf s (req_items req), map (lineItem s) (req_items req))"
    and "createOrderTx e order (req_items req) s = (True, s')"
proof -
  from assms obtain sub ois where
    v: "validateItems e s 0 (req_items req) (fl 0) [] = Inr (sub, ois)"
    by (auto simp: createOrder_def split: if_splits sum.splits dest: validateItems_Inl)
  from validateItems_Inr [OF v] have
    sub: "sub = subtotalOf s (req_items req)" and ois: "ois = map (lineItem s) (req_items req)"
    by (simp_all add: subtotalOf_def)
  from v sub ois show "validateItems e s 0 (req_items req) (fl 0) [] =
           Inr (subtotalOf s (req_items req), map (lineItem s) (req_items req))" by simp
  from assms v sub ois show "oid = newId e"
    by (auto simp: createOrder_def transaction_def split: if_splits prod.splits bool.splits)
  from assms v sub ois show o: "order = buildOrder e uid req (subtotalOf s (req_items req))
                   (map (lineItem s) (req_items req))"
    by (auto simp: createOrder_def transaction_def split: if_splits prod.splits bool.splits)
  from assms v sub ois o show "createOrderTx e order (req_items req) s = (True, s')"
    by (auto simp: createOrder_def transaction_def split: if_splits prod.splits bool.splits)
qed

lemmas shop_defs = request_def line_def shop_def shirt_def quiet_def

text \<open>
  Arithmetic on given numbers is computed by unfolding the rounding: the literals of the
  route, and the subtotals of the requests used below.
\<close>

lemmas number_eval = fl_def nearest_def quantum_def exponentOf_def roundHalfEven_def
  pow2_def toNumber_def bitLength.simps

lemma fl_literals [simp]:
  "fl 0 = Finite 0" "fl 50 = Finite 50" "fl 100 = Finite 100" "fl 500 = Finite 500"
  by (simp_all add: number_eval)

lemma fl_rate: "fl 0.18 = Finite (3242591731706757 / 18014398509481984)"
  by (simp add: number_eval)

text \<open>
  Rounding at work: one tenth and one third are not binary64 values, above \<open>2 ^ 53\<close> only
  every second integer is one and a tie goes to the even significand, and the product
  \<open>5.75 * 0.18 * 100\<close> of the route lies below the exact 103.5.
\<close>

lemma fl_examples:
  "fl 0.1 = Finite (3602879701896397 / 36028797018963968)"
  "fl (1 / 3) = Finite (6004799503160661 / 18014398509481984)"
  "fl (2 ^ 53 + 1) = Finite (2 ^ 53)"
  "fl (2 ^ 53 + 3) = Finite (2 ^ 53 + 4)"
  "fl (- 5) = Finite (- 5)"
  by (simp_all add: number_eval)

lemma product_below_tie:
  "num_mul (num_mul (Finite 5.75) (fl 0.18)) (fl 100) =
     Finite (7283165022388223 / 70368744177664)"
  "(7283165022388223 / 70368744177664 :: real) < 103.5"
  by (simp_all add: fl_rate) (simp_all add: number_eval)

lemma shop_order:
  "q \<le> 10 \<Longrightarrow> \<exists>s'. createOrder quiet shop ''u1'' (request [q]) =
     (Created ''o1'' (buildOrder quiet ''u1'' (request [q])
        (subtotalOf shop (req_items (request [q])))
        [\<lparr>oi_productId = ''p1'', oi_quantity = q, oi_price = Finite 100, oi_size = None,
          oi_color = None\<rparr>]), s')"
  by (simp add: createOrder_def request_def line_def shop_def shirt_def quiet_def
        transaction_def createOrderTx_def orderCreate_def updateStock_def
        subtotalOf_def subtotalFrom_def unitPrice_def)

lemma shop_subtotal:
  "subtotalOf shop (req_items (request [3])) = Finite 300"
  "subtotalOf shop (req_items (request [10])) = Finite 1000"
  "subtotalOf shop (req_items (request [- 5])) = Finite (- 500)"
  "subtotalOf shop (req_items (request [6, 6])) = Finite 1200"
  by (simp_all add: subtotalOf_def subtotalFrom_def unitPrice_def shop_defs number_eval)

lemma amounts_300:
  "shippingCostOf (Finite 300) = Finite 50" "taxAmountOf (Finite 300) = Finite 54"
  "totalAmountOf (Finite 300) = Finite 404"
  by (simp_all add: shippingCostOf_def taxAmountOf_def totalAmountOf_def fl_rate)
     (simp_all add: number_eval)

lemma amounts_1000:
  "shippingCostOf (Finite 1000) = Finite 0" "taxAmountOf (Finite 1000) = Finite 180"
  "totalAmountOf (Finite 1000) = Finite 1180"
  by (simp_all add: shippingCostOf_def taxAmountOf_def totalAmountOf_def fl_rate)
     (simp_all add: number_eval)

section \<open>A failed order leaves no trace; the amounts of an order\<close>

text \<open>
  C2. Whenever \<open>createOrder\<close> answers anything but 201 (the request is malformed, the
  address is not the user's, a product is missing or inactive, the stock is too low, or a
  store call rejects before or inside the transaction), the store afterwards is the store
  before the call: no order, no order item and no stock change remains.
\<close>

theorem C2_failed_createOrder_leaves_no_trace:
  assumes "\<forall>oid order. fst (createOrder e s uid req) \<noteq> Created oid order"
  shows "snd (createOrder e s uid req) = s"
  using assms
  by (auto simp: createOrder_def transaction_def
           split: if_splits sum.splits prod.splits bool.splits)

text \<open>
  The witness has a rejected request (11 of a product with stock 10) and a transaction
  that is undone: the second stock update rejects after the order row and the first
  update were written by the callback, whose own store shows the stock at 7.
\<close>

theorem C2_witness:
  "fst (createOrder quiet shop ''u1'' (request [11])) = InsufficientStock ''Shirt'' \<and>
   snd (createOrder quiet shop ''u1'' (request [11])) = shop \<and>
   fst (createOrder (quiet\<lparr>throws := (\<lambda>c. c = ProductUpdate 1)\<rparr>) shop ''u1'' (request [3, 3]))
     = ServerError \<and>
   snd (createOrder (quiet\<lparr>throws := (\<lambda>c. c = ProductUpdate 1)\<rparr>) shop ''u1'' (request [3, 3]))
     = shop \<and>
   stockOf (snd (createOrderTx (quiet\<lparr>throws := (\<lambda>c. c = ProductUpdate 1)\<rparr>)
                   (buildOrder quiet ''u1'' (request [3, 3]) (Finite 600) []) (map line [3, 3]) shop)) ''p1''
     = Some 7"
proof -
  have a: "fst (createOrder quiet shop ''u1'' (request [11])) = InsufficientStock ''Shirt''"
    by (simp add: createOrder_def request_def line_def shop_def shirt_def quiet_def)
  have b: "fst (createOrder (quiet\<lparr>throws := (\<lambda>c. c = ProductUpdate 1)\<rparr>) shop ''u1''
                  (request [3, 3])) = ServerError"
    by (simp add: createOrder_def request_def line_def shop_def shirt_def quiet_def
          transaction_def createOrderTx_def orderCreate_def updateStock_def)
  have c: "stockOf (snd (createOrderTx (quiet\<lparr>throws := (\<lambda>c. c = ProductUpdate 1)\<rparr>)
                   (buildOrder quiet ''u1'' (request [3, 3]) (Finite 600) []) (map line [3, 3]) shop)) ''p1''
     = Some 7"
    by (simp add: line_def shop_def shirt_def quiet_def stockOf_def
          createOrderTx_def orderCreate_def updateStock_def)
  from a have a': "\<forall>oid order. fst (createOrder quiet shop ''u1'' (request [11])) \<noteq> Created oid order"
    by simp
  from b have b': "\<forall>oid order. fst (createOrder (quiet\<lparr>throws := (\<lambda>c. c = ProductUpdate 1)\<rparr>)
        shop ''u1'' (request [3, 3])) \<noteq> Created oid order"
    by simp
  from C2_failed_createOrder_leaves_no_trace [OF a']
       C2_failed_createOrder_leaves_no_trace [OF b'] a b c
  show ?thesis by simp
qed

lemma shopAt_order:
  "\<exists>s'. createOrder quiet (shopAt x) ''u1'' (request [1]) =
     (Created ''o1'' (buildOrder quiet ''u1'' (request [1])
        (subtotalOf (shopAt x) (req_items (request [1])))
        [\<lparr>oi_productId = ''p1'', oi_quantity = 1, oi_price = fl x, oi_size = None,
          oi_color = None\<rparr>]), s')"
  by (simp add: createOrder_def shopAt_def request_def line_def shop_def shirt_def quiet_def
        transaction_def createOrderTx_def orderCreate_def updateStock_def
        subtotalOf_def subtotalFrom_def unitPrice_def)

lemma shopAt_subtotal:
  "subtotalOf (shopAt 5.75) (req_items (request [1])) = Finite 5.75"
  "subtotalOf (shopAt 100.25) (req_items (request [1])) = Finite 100.25"
  by (simp_all add: subtotalOf_def subtotalFrom_def unitPrice_def shopAt_def shop_defs
        number_eval)

lemma amounts_at_ties:
  "shippingCostOf (Finite 5.75) = fl 50" "taxAmountOf (Finite 5.75) = fl 1.03"
  "totalAmountOf (Finite 5.75) = fl 56.78"
  "shippingCostOf (Finite 100.25) = fl 50" "taxAmountOf (Finite 100.25) = fl 18.04"
  "totalAmountOf (Finite 100.25) = fl 168.29"
  by (simp_all add: shippingCostOf_def taxAmountOf_def totalAmountOf_def fl_rate)
     (simp_all add: number_eval)

lemma cents_differ:
  "fl 1.03 \<noteq> fl 1.04" "fl 56.78 \<noteq> fl 56.79" "fl 18.04 \<noteq> fl 18.05" "fl 168.29 \<noteq> fl 168.30"
  by (simp_all add: number_eval)

text \<open>
  C3, at the inputs where the code leaves it. For the subtotals 1000 and 300 the order
  carries shipping 0, tax 180, total 1180 and shipping 50, tax 54, total 404. For one
  item at price 5.75 the subtotal is 5.75 and 18 percent of it is 1.035, which rounds to
  1.04 at two decimal places; the product \<open>5.75 * 0.18 * 100\<close> in binary64 lies below
  103.5, \<open>Math.round\<close> gives 103, and the order carries tax 1.03 and total 56.78 instead of
  1.04 and 56.79. At price 100.25 it carries tax 18.04 and total 168.29, with 18 percent
  at 18.045.
\<close>

theorem C3_tax_a_cent_low_at_ties:
  "amounts (fst (createOrder quiet shop ''u1'' (request [10]))) =
     Some (Finite 0, Finite 180, Finite 1180) \<and>
   amounts (fst (createOrder quiet shop ''u1'' (request [3]))) =
     Some (Finite 50, Finite 54, Finite 404) \<and>
   subtotalOf (shopAt 5.75) (req_items (request [1])) = Finite 5.75 \<and>
   (5.75 :: real) * 0.18 = 1.035 \<and>
   real_of_int \<lfloor>(5.75 :: real) * 0.18 * 100 + 1 / 2\<rfloor> / 100 = 1.04 \<and>
   amounts (fst (createOrder quiet (shopAt 5.75) ''u1'' (request [1]))) =
     Some (fl 50, fl 1.03, fl 56.78) \<and>
   fl 1.03 \<noteq> fl 1.04 \<and> fl 56.78 \<noteq> fl 56.79 \<and>
   subtotalOf (shopAt 100.25) (req_items (request [1])) = Finite 100.25 \<and>
   (100.25 :: real) * 0.18 = 18.045 \<and>
   amounts (fst (createOrder quiet (shopAt 100.25) ''u1'' (request [1]))) =
     Some (fl 50, fl 18.04, fl 168.29) \<and>
   fl 18.04 \<noteq> fl 18.05 \<and> fl 168.29 \<noteq> fl 168.30"
proof -
  from shop_order [of 10] shop_subtotal(2) amounts_1000
  have a: "amounts (fst (createOrder quiet shop ''u1'' (request [10]))) =
     Some (Finite 0, Finite 180, Finite 1180)"
    by (auto simp: amounts_def buildOrder_def)
  from shop_order [of 3] shop_subtotal(1) amounts_300
  have b: "amounts (fst (createOrder quiet shop ''u1'' (request [3]))) =
     Some (Finite 50, Finite 54, Finite 404)"
    by (auto simp: amounts_def buildOrder_def)
  from shopAt_order [of "5.75"] shopAt_subtotal(1) amounts_at_ties(1-3)
  have c: "amounts (fst (createOrder quiet (shopAt 5.75) ''u1'' (request [1]))) =
     Some (fl 50, fl 1.03, fl 56.78)"
    by (auto simp: amounts_def buildOrder_def simp del: fl_literals)
  from shopAt_order [of "100.25"] shopAt_subtotal(2) amounts_at_ties(4-6)
  have d: "amounts (fst (createOrder quiet (shopAt 100.25) ''u1'' (request [1]))) =
     Some (fl 50, fl 18.04, fl 168.29)"
    by (auto simp: amounts_def buildOrder_def simp del: fl_literals)
  have e: "(5.75 :: real) * 0.18 = 1.035"
    "real_of_int \<lfloor>(5.75 :: real) * 0.18 * 100 + 1 / 2\<rfloor> / 100 = 1.04"
    "(100.25 :: real) * 0.18 = 18.045"
    by simp_all
  from a b c d e shopAt_subtotal cents_differ show ?thesis by blast
qed

text \<open>
  The sale price of a product is read by none of the steps of \<open>createOrder\<close>: the
  validation loop gives the same result whatever the sale prices are, and the stock
  updates of the transaction complete or reject by the keys of the product table alone.
\<close>

lemma setSalePrices_fields [simp]:
  "orders (setSalePrices f s) = orders s"
  "addresses (setSalePrices f s) = addresses s"
  "products (setSalePrices f s) pid = map_option (\<lambda>p. p\<lparr>salePrice := f pid\<rparr>) (products s pid)"
  by (simp_all add: setSalePrices_def)

lemma validateItems_setSalePrices:
  "validateItems e (setSalePrices f s) k items sub acc = validateItems e s k items sub acc"
  by (induction items arbitrary: k sub acc) (auto split: option.splits)

lemma updateStock_dom:
  "updateStock pid n s = (ok, s') \<Longrightarrow>
   dom (products s') = dom (products s) \<and> orders s' = orders s \<and> addresses s' = addresses s"
  by (auto simp: updateStock_def split: option.splits if_splits)

lemma updateStock_fst: "fst (updateStock pid n s) = (pid \<in> dom (products s))"
  by (auto simp: updateStock_def split: option.splits)

lemma decrementStock_fst_dom:
  "dom (products s1) = dom (products s2) \<Longrightarrow>
   fst (decrementStock e k items s1) = fst (decrementStock e k items s2)"
proof (induction items arbitrary: k s1 s2)
  case Nil
  then show ?case by simp
next
  case (Cons item rest)
  obtain ok1 t1 where u1: "updateStock (productId item) (quantity item) s1 = (ok1, t1)"
    by (cases "updateStock (productId item) (quantity item) s1")
  obtain ok2 t2 where u2: "updateStock (productId item) (quantity item) s2 = (ok2, t2)"
    by (cases "updateStock (productId item) (quantity item) s2")
  from updateStock_fst [of "productId item" "quantity item" s1]
       updateStock_fst [of "productId item" "quantity item" s2] u1 u2 Cons.prems
  have ok: "ok1 = ok2" by simp
  from updateStock_dom [OF u1] updateStock_dom [OF u2] Cons.prems
  have d: "dom (products t1) = dom (products t2)" by simp
  from Cons.IH [OF d] u1 u2 ok show ?case by (cases ok2) simp_all
qed

lemma case_outcome:
  "(case p of (False, s') \<Rightarrow> f s' | (True, s') \<Rightarrow> g s') = (if fst p then g (snd p) else f (snd p))"
  by (cases p) (auto split: bool.splits)

lemma createOrder_setSalePrices:
  "fst (createOrder e (setSalePrices f s) uid req) = fst (createOrder e s uid req)"
proof -
  have d: "dom (products (setSalePrices f s\<lparr>orders := x\<rparr>)) = dom (products (s\<lparr>orders := x\<rparr>))" for x
    by (auto simp: setSalePrices_def dom_def)
  have tx: "fst (createOrderTx e order items (setSalePrices f s)) =
            fst (createOrderTx e order items s)" for order items
    using decrementStock_fst_dom [OF d]
    by (simp add: createOrderTx_def orderCreate_def)
  have tr: "fst (transaction (createOrderTx e order items) (setSalePrices f s)) =
            fst (transaction (createOrderTx e order items) s)" for order items
    using tx [of order items]
    by (auto simp: transaction_def split: prod.splits bool.splits)
  show ?thesis
    by (simp add: createOrder_def validateItems_setSalePrices case_outcome tr
             split: sum.splits prod.splits)
qed

text \<open>
  C10. On every successful \<open>createOrder\<close>, each order item row carries the \<open>price\<close>
  column of its product and the quantity of its line item, the total is computed from the
  sum of those prices times quantities, and replacing the sale prices of the products in
  any way gives the same answer with the same order.
\<close>

theorem C10_base_price_only:
  assumes "createOrder e s uid req = (Created oid order, s')"
  shows "list_all2 (\<lambda>item row. \<exists>p. products s (productId item) = Some p \<and>
              oi_price row = price p \<and> oi_quantity row = quantity item)
           (req_items req) (orderItems order) \<and>
         totalAmount order = totalAmountOf (rowsTotal (orderItems order)) \<and>
         (\<forall>f. fst (createOrder e (setSalePrices f s) uid req) = Created oid order)"
proof -
  note c = createOrder_Created [OF assms]
  from validateItems_Inr [OF c(3)] have
    ok: "\<forall>item \<in> set (req_items req). \<exists>p. products s (productId item) = Some p" by blast
  have rows: "orderItems order = map (lineItem s) (req_items req)"
    unfolding c(2) by (simp add: buildOrder_def)
  have a: "list_all2 (\<lambda>item row. \<exists>p. products s (productId item) = Some p \<and>
              oi_price row = price p \<and> oi_quantity row = quantity item)
           (req_items req) (orderItems order)"
    unfolding rows using ok
    by (auto simp: list_all2_map2 lineItem_def unitPrice_def intro!: list_all2_same [THEN iffD2])
  have sub: "rowsTotal (orderItems order) = subtotalOf s (req_items req)"
    unfolding rows
    by (simp add: rowsTotal_def subtotalOf_def subtotalFrom_def lineItem_def foldl_map)
  have b: "totalAmount order = totalAmountOf (rowsTotal (orderItems order))"
    unfolding sub unfolding c(2) by (simp add: buildOrder_def)
  have d: "fst (createOrder e (setSalePrices f s) uid req) = Created oid order" for f
    using createOrder_setSalePrices [of e f s uid req] assms by simp
  from a b d show ?thesis by blast
qed

theorem C10_witness:
  "salePrice shirt = Some (Finite 80) \<and>
   (case fst (createOrder quiet shop ''u1'' (request [3])) of
      Created oid order \<Rightarrow> (map oi_price (orderItems order), totalAmount order)
    | _ \<Rightarrow> ([], NaN)) = ([Finite 100], Finite 404) \<and>
   fst (createOrder quiet (setSalePrices (\<lambda>pid. Some (Finite 1)) shop) ''u1'' (request [3])) =
   fst (createOrder quiet shop ''u1'' (request [3]))"
proof -
  from shop_order [of 3] shop_subtotal(1) obtain s2 where
    r2: "createOrder quiet shop ''u1'' (request [3]) =
     (Created ''o1'' (buildOrder quiet ''u1'' (request [3]) (Finite 300)
        [\<lparr>oi_productId = ''p1'', oi_quantity = 3, oi_price = Finite 100, oi_size = None,
          oi_color = None\<rparr>]), s2)" by auto
  from C10_base_price_only [OF r2] r2 amounts_300(3) show ?thesis
    by (simp add: buildOrder_def shirt_def)
qed

section \<open>The format of the order number\<close>

lemma digit10_digit: "digit10 d \<in> set ''0123456789''"
  unfolding digit10_def by (rule nth_mem) simp

lemma decimal_digits: "decimal n \<noteq> [] \<and> set (decimal n) \<subseteq> set ''0123456789''"
proof (induction n rule: decimal.induct)
  case (1 n)
  show ?case
  proof (cases "n < 10")
    case True
    with digit10_digit [of n] show ?thesis by (simp add: decimal.simps [of n])
  next
    case False
    with "1.IH" digit10_digit [of "n mod 10"] show ?thesis
      by (simp add: decimal.simps [of n])
  qed
qed

lemma toUpperChar_table: "map toUpperChar digits36 = upperDigits36"
  by (simp add: digits36_def upperDigits36_def toUpperChar_def lowerLetters_def
        upperLetters_def)

lemma toUpperChar_digits36: "c \<in> set digits36 \<Longrightarrow> toUpperChar c \<in> set upperDigits36"
proof -
  assume "c \<in> set digits36"
  then have "toUpperChar c \<in> set (map toUpperChar digits36)" by simp
  then show ?thesis unfolding toUpperChar_table .
qed

lemma orderSuffix_chars:
  assumes "fractionText36 (random36 e)"
  shows "set (orderSuffix e) \<subseteq> set upperDigits36"
proof -
  have "set (drop 2 (random36 e)) \<subseteq> set digits36"
    using assms by (auto simp: fractionText36_def list_all_iff)
  then have "set (substr 2 6 (random36 e)) \<subseteq> set digits36"
    unfolding substr_def using set_take_subset by fast
  then show ?thesis
    by (auto simp: orderSuffix_def toUpperCase_def toUpperChar_digits36)
qed

text \<open>
  The order number of every successful \<open>createOrder\<close> is \<open>ORD-\<close>, the decimal digits of
  the clock, \<open>-\<close> and a suffix of upper case base 36 digits. The suffix is what
  \<open>substr(2, 6)\<close> finds behind \<open>0.\<close> in the text of the random number: six characters when
  the fraction has at least six digits in base 36, all of the fraction otherwise.
\<close>

lemma orderNumber_form:
  assumes "createOrder e s uid req = (Created oid order, s')"
    and "fractionText36 (random36 e)"
  shows "orderNumber order = ''ORD-'' @ decimal (now e) @ ''-'' @ orderSuffix e \<and>
         decimal (now e) \<noteq> [] \<and> set (decimal (now e)) \<subseteq> set ''0123456789'' \<and>
         set (orderSuffix e) \<subseteq> set upperDigits36 \<and>
         length (orderSuffix e) = min 6 (length (random36 e) - 2) \<and>
         length (orderSuffix e) \<le> 6"
proof -
  from createOrder_Created(2) [OF assms(1)]
  have n: "orderNumber order = ''ORD-'' @ decimal (now e) @ ''-'' @ orderSuffix e"
    by (simp add: buildOrder_def generateOrderNumber_def)
  have l: "length (orderSuffix e) = min 6 (length (random36 e) - 2)"
    by (simp add: orderSuffix_def toUpperCase_def substr_def min.commute)
  from n l decimal_digits [of "now e"] orderSuffix_chars [OF assms(2)]
  show ?thesis by simp
qed

text \<open>
  C5, at the input where the code leaves it. The random number 0.5 is \<open>0.i\<close> in base 36.
  The order is created, and its number is \<open>ORD-1700000000000-I\<close>: the suffix has one
  character, not six.
\<close>

theorem C5_suffix_shorter_than_six:
  "fractionText36 ''0.i'' \<and>
   fst (createOrder (quiet\<lparr>random36 := ''0.i''\<rparr>) shop ''u1'' (request [3])) =
     Created ''o1''
       \<lparr>orderNumber = ''ORD-1700000000000-I'', userId = ''u1'', addressId = ''a1'',
        totalAmount = Finite 404, shippingCost = Finite 50, taxAmount = Finite 54, paymentMethod = ''COD'',
        order_notes = None, status = PENDING,
        orderItems = [\<lparr>oi_productId = ''p1'', oi_quantity = 3, oi_price = Finite 100,
                       oi_size = None, oi_color = None\<rparr>]\<rparr> \<and>
   orderSuffix (quiet\<lparr>random36 := ''0.i''\<rparr>) = ''I'' \<and>
   length (orderSuffix (quiet\<lparr>random36 := ''0.i''\<rparr>)) \<noteq> 6"
proof -
  have d: "decimal 1700000000000 = ''1700000000000''"
    by (simp add: decimal.simps digit10_def)
  have sfx: "orderSuffix (quiet\<lparr>random36 := ''0.i''\<rparr>) = ''I''"
    by (simp add: orderSuffix_def substr_def toUpperCase_def toUpperChar_def
          lowerLetters_def upperLetters_def)
  have t: "fractionText36 ''0.i''"
    by (simp add: fractionText36_def digits36_def)
  have c: "fst (createOrder (quiet\<lparr>random36 := ''0.i''\<rparr>) shop ''u1'' (request [3])) =
     Created ''o1''
       \<lparr>orderNumber = ''ORD-1700000000000-I'', userId = ''u1'', addressId = ''a1'',
        totalAmount = Finite 404, shippingCost = Finite 50, taxAmount = Finite 54, paymentMethod = ''COD'',
        order_notes = None, status = PENDING,
        orderItems = [\<lparr>oi_productId = ''p1'', oi_quantity = 3, oi_price = Finite 100,
                       oi_size = None, oi_color = None\<rparr>]\<rparr>"
    using d sfx amounts_300
    by (simp add: createOrder_def shop_defs transaction_def createOrderTx_def
          orderCreate_def updateStock_def buildOrder_def generateOrderNumber_def
          notesOrNull_def number_eval)
  from t c sfx show ?thesis by simp
qed

section \<open>The two ways a route ends\<close>

text \<open>
  The stock loop changes nothing but the stock column, and when it completes every
  product has lost the total quantity its line items ask for.
\<close>

lemma decrementStock_frame:
  "decrementStock e k items s = (ok, s') \<Longrightarrow>
   orders s' = orders s \<and> addresses s' = addresses s \<and> dom (products s') = dom (products s)"
proof (induction items arbitrary: k s)
  case Nil
  then show ?case by simp
next
  case (Cons item rest)
  show ?case
  proof (cases "throws e (ProductUpdate k)")
    case True
    with Cons.prems show ?thesis by simp
  next
    case False
    obtain ok1 t1 where u: "updateStock (productId item) (quantity item) s = (ok1, t1)"
      by (cases "updateStock (productId item) (quantity item) s")
    note f = updateStock_dom [OF u]
    show ?thesis
    proof (cases ok1)
      case True
      with Cons.prems False u have "decrementStock e (Suc k) rest t1 = (ok, s')" by simp
      from Cons.IH [OF this] f show ?thesis by simp
    next
      case False
      with Cons.prems \<open>\<not> throws e (ProductUpdate k)\<close> u f show ?thesis by auto
    qed
  qed
qed

lemma decrementStock_True:
  "decrementStock e k items s = (True, s') \<Longrightarrow>
   s' = adjustStock (\<lambda>pid. - reserved pid items) s"
proof (induction items arbitrary: k s)
  case Nil
  have "adjustStock (\<lambda>pid. - reserved pid []) s = s"
    by (simp add: adjustStock_def reserved_def option.map_ident fun_eq_iff cong: option.map_cong)
  with Nil show ?case by simp
next
  case (Cons item rest)
  from Cons.prems obtain p where p: "products s (productId item) = Some p"
    by (auto simp: updateStock_def split: if_splits option.splits)
  let ?s1 = "s\<lparr>products := (products s)(productId item \<mapsto> p\<lparr>stock := stock p - quantity item\<rparr>)\<rparr>"
  from p have upd: "updateStock (productId item) (quantity item) s = (True, ?s1)"
    by (simp add: updateStock_def)
  from Cons.prems upd have rec: "decrementStock e (Suc k) rest ?s1 = (True, s')"
    by (simp split: if_splits)
  have eq: "adjustStock (\<lambda>pid. - reserved pid rest) ?s1 =
        adjustStock (\<lambda>pid. - reserved pid (item # rest)) s"
    using p by (auto simp: adjustStock_def reserved_Cons fun_eq_iff)
  from Cons.IH [OF rec] eq show ?case by simp
qed

text \<open>
  A call of \<open>createOrder\<close> either leaves the store as it was, or answers 201 with the
  order built from the validated line items, stored under a key that was free, and the
  stock of every product lowered by the quantities asked of it.
\<close>

lemma createOrder_cases:
  assumes "createOrder e s uid req = (r, s')"
  shows "(s' = s \<and> (\<forall>oid order. r \<noteq> Created oid order)) \<or>
         (\<exists>order. r = Created (newId e) order \<and> orders s (newId e) = None \<and>
            order = buildOrder e uid req (subtotalOf s (req_items req))
                      (map (lineItem s) (req_items req)) \<and>
            s' = adjustStock (\<lambda>pid. - reserved pid (req_items req))
                   (s\<lparr>orders := (orders s)(newId e \<mapsto> order)\<rparr>))"
proof (cases "\<exists>oid order. r = Created oid order")
  case False
  then have "\<forall>oid order. fst (createOrder e s uid req) \<noteq> Created oid order"
    using assms by simp
  then have "snd (createOrder e s uid req) = s"
    by (auto simp: createOrder_def transaction_def
           split: if_splits sum.splits prod.splits bool.splits)
  with assms False show ?thesis by simp
next
  case True
  then obtain oid order where r: "r = Created oid order" by blast
  note c = createOrder_Created [OF assms [unfolded r]]
  from c(4) obtain s1 where
    oc: "orderCreate e order s = (True, s1)" and
    ds: "decrementStock e 0 (req_items req) s1 = (True, s')"
    by (auto simp: createOrderTx_def split: prod.splits bool.splits)
  from oc have free: "orders s (newId e) = None"
    and s1: "s1 = s\<lparr>orders := (orders s)(newId e \<mapsto> order)\<rparr>"
    by (auto simp: orderCreate_def split: if_splits)
  from decrementStock_True [OF ds] s1 r c(1) c(2) free show ?thesis by simp
qed

lemma createOrder_succeeds:
  assumes "noFaults e"
    and "req_items req \<noteq> []" and "req_addressId req \<noteq> []" and "req_paymentMethod req \<noteq> []"
    and "addresses s (req_addressId req) = Some uid"
    and "orders s (newId e) = None"
    and "\<forall>item \<in> set (req_items req). \<exists>p. products s (productId item) = Some p \<and>
           isActive p \<and> quantity item \<le> stock p"
  shows "createOrder e s uid req =
     (Created (newId e)
        (buildOrder e uid req (subtotalOf s (req_items req)) (map (lineItem s) (req_items req))),
      adjustStock (\<lambda>pid. - reserved pid (req_items req))
        (s\<lparr>orders := (orders s)(newId e \<mapsto>
             buildOrder e uid req (subtotalOf s (req_items req))
               (map (lineItem s) (req_items req)))\<rparr>))"
proof -
  let ?order = "buildOrder e uid req (subtotalOf s (req_items req))
                  (map (lineItem s) (req_items req))"
  let ?s1 = "s\<lparr>orders := (orders s)(newId e \<mapsto> ?order)\<rparr>"
  from assms(1) have nf: "\<And>c. \<not> throws e c" by (simp add: noFaults_def)
  then have nfp: "\<forall>j. \<not> throws e (ProductFind j)" and nfu: "\<forall>j. \<not> throws e (ProductUpdate j)"
    by simp_all
  have v: "validateItems e s 0 (req_items req) (fl 0) [] =
      Inr (subtotalOf s (req_items req), map (lineItem s) (req_items req))"
    using validateItems_passes [OF nfp assms(7), of 0 "fl 0" "[]"]
    by (simp add: subtotalOf_def)
  from assms(7) have ex: "\<forall>item \<in> set (req_items req). products ?s1 (productId item) \<noteq> None"
    by auto
  have tx: "createOrderTx e ?order (req_items req) s =
      (True, adjustStock (\<lambda>pid. - reserved pid (req_items req)) ?s1)"
    using decrementStock_completes [OF nfu ex, of 0] nf assms(6)
    by (simp add: createOrderTx_def orderCreate_def)
  from v tx nf assms(2-5) show ?thesis
    by (simp add: createOrder_def transaction_def)
qed

section \<open>Quantities that are not positive\<close>

lemma reserved_Nil [simp]: "reserved pid [] = 0"
  by (simp add: reserved_def)

lemma reserved_nonpos:
  "\<forall>item \<in> set items. productId item = pid \<longrightarrow> quantity item \<le> 0 \<Longrightarrow>
   reserved pid items \<le> 0"
  by (induction items) (auto simp: reserved_Cons)

lemma reserved_neg:
  "\<forall>item \<in> set items. productId item = pid \<longrightarrow> quantity item \<le> 0 \<Longrightarrow>
   \<exists>item \<in> set items. productId item = pid \<and> quantity item < 0 \<Longrightarrow>
   reserved pid items < 0"
proof (induction items)
  case Nil
  then show ?case by simp
next
  case (Cons item rest)
  from Cons.prems(1) have rest: "\<forall>i \<in> set rest. productId i = pid \<longrightarrow> quantity i \<le> 0"
    by simp
  show ?case
  proof (cases "productId item = pid \<and> quantity item < 0")
    case True
    with reserved_nonpos [OF rest] show ?thesis by (simp add: reserved_Cons)
  next
    case False
    with Cons.prems(2) have "\<exists>i \<in> set rest. productId i = pid \<and> quantity i < 0" by auto
    from Cons.IH [OF rest this] Cons.prems(1) show ?thesis by (auto simp: reserved_Cons)
  qed
qed

text \<open>
  C8. A request with at least one line item, an address of the user and a payment method
  is accepted whenever every line item names an active product with stock that is not
  negative and every positive quantity is within the stock: a quantity of 0 or below
  meets no check. The order and its rows are created with the quantities as requested,
  every product loses the total quantity asked of it, and a product asked only for
  quantities of 0 or below, one of them negative, ends with more stock than before.
\<close>

theorem C8_quantity_not_checked_positive:
  assumes "noFaults e"
    and "req_items req \<noteq> []" and "req_addressId req \<noteq> []" and "req_paymentMethod req \<noteq> []"
    and "addresses s (req_addressId req) = Some uid"
    and "orders s (newId e) = None"
    and "\<forall>item \<in> set (req_items req). \<exists>p. products s (productId item) = Some p \<and>
           isActive p \<and> 0 \<le> stock p \<and> (0 < quantity item \<longrightarrow> quantity item \<le> stock p)"
  shows "\<exists>order s'. createOrder e s uid req = (Created (newId e) order, s') \<and>
           orders s' (newId e) = Some order \<and>
           map oi_productId (orderItems order) = map productId (req_items req) \<and>
           map oi_quantity (orderItems order) = map quantity (req_items req) \<and>
           (\<forall>pid p. products s pid = Some p \<longrightarrow>
              stockOf s' pid = Some (stock p - reserved pid (req_items req))) \<and>
           (\<forall>pid p. products s pid = Some p \<and>
              (\<forall>item \<in> set (req_items req). productId item = pid \<longrightarrow> quantity item \<le> 0) \<and>
              (\<exists>item \<in> set (req_items req). productId item = pid \<and> quantity item < 0) \<longrightarrow>
              (\<exists>n. stockOf s' pid = Some n \<and> stock p < n))"
proof -
  let ?items = "req_items req"
  let ?order = "buildOrder e uid req (subtotalOf s ?items) (map (lineItem s) ?items)"
  let ?s' = "adjustStock (\<lambda>pid. - reserved pid ?items) (s\<lparr>orders := (orders s)(newId e \<mapsto> ?order)\<rparr>)"
  have pass: "\<forall>item \<in> set ?items. \<exists>p. products s (productId item) = Some p \<and>
           isActive p \<and> quantity item \<le> stock p"
  proof
    fix item assume "item \<in> set ?items"
    with assms(7) obtain p where p: "products s (productId item) = Some p" "isActive p"
      "0 \<le> stock p" "0 < quantity item \<longrightarrow> quantity item \<le> stock p" by blast
    then have "quantity item \<le> stock p" by (cases "0 < quantity item") simp_all
    with p show "\<exists>p. products s (productId item) = Some p \<and> isActive p \<and>
        quantity item \<le> stock p" by blast
  qed
  have run: "createOrder e s uid req = (Created (newId e) ?order, ?s')"
    by (rule createOrder_succeeds [OF assms(1-6) pass])
  have a: "orders ?s' (newId e) = Some ?order" by simp
  have b: "map oi_productId (orderItems ?order) = map productId ?items"
    by (simp add: buildOrder_def lineItem_def comp_def)
  have c: "map oi_quantity (orderItems ?order) = map quantity ?items"
    by (simp add: buildOrder_def lineItem_def comp_def)
  have d: "stockOf ?s' pid = Some (stock p - reserved pid ?items)"
    if "products s pid = Some p" for pid p
    using that by (simp add: stockOf_def)
  have f: "\<exists>n. stockOf ?s' pid = Some n \<and> stock p < n"
    if "products s pid = Some p \<and>
        (\<forall>item \<in> set ?items. productId item = pid \<longrightarrow> quantity item \<le> 0) \<and>
        (\<exists>item \<in> set ?items. productId item = pid \<and> quantity item < 0)" for pid p
  proof -
    from that have p: "products s pid = Some p"
      and np: "\<forall>item \<in> set ?items. productId item = pid \<longrightarrow> quantity item \<le> 0"
      and ng: "\<exists>item \<in> set ?items. productId item = pid \<and> quantity item < 0" by blast+
    from reserved_neg [OF np ng] d [OF p] show ?thesis by simp
  qed
  from run a b c d f show ?thesis by blast
qed

lemma shop_nonpositive:
  "q \<le> 0 \<Longrightarrow> \<forall>item \<in> set (req_items (request [q])). \<exists>p.
      products shop (productId item) = Some p \<and> isActive p \<and> 0 \<le> stock p \<and>
      (0 < quantity item \<longrightarrow> quantity item \<le> stock p)"
  by (simp add: shop_defs)

theorem C8_witness:
  "fst (createOrder quiet shop ''u1'' (request [- 5])) =
     Created ''o1'' (buildOrder quiet ''u1'' (request [- 5]) (Finite (- 500))
        [\<lparr>oi_productId = ''p1'', oi_quantity = - 5, oi_price = Finite 100, oi_size = None,
          oi_color = None\<rparr>]) \<and>
   stockOf shop ''p1'' = Some 10 \<and>
   stockOf (snd (createOrder quiet shop ''u1'' (request [- 5]))) ''p1'' = Some 15 \<and>
   stockOf (snd (createOrder quiet shop ''u1'' (request [0]))) ''p1'' = Some 10"
proof -
  have h: "noFaults quiet" "req_items (request [q]) \<noteq> []" "req_addressId (request [q]) \<noteq> []"
    "req_paymentMethod (request [q]) \<noteq> []"
    "addresses shop (req_addressId (request [q])) = Some ''u1''"
    "orders shop (newId quiet) = None" for q
    by (simp_all add: shop_defs noFaults_def)
  have p: "products shop ''p1'' = Some shirt" by (simp add: shop_def)
  have r5: "reserved ''p1'' (req_items (request [- 5])) = - 5"
    and r0: "reserved ''p1'' (req_items (request [0])) = 0"
    by (simp_all add: reserved_def shop_defs)
  from C8_quantity_not_checked_positive [OF h shop_nonpositive, of "- 5"] p r5
  have a: "stockOf (snd (createOrder quiet shop ''u1'' (request [- 5]))) ''p1'' = Some 15"
    by (auto simp: shirt_def)
  from C8_quantity_not_checked_positive [OF h shop_nonpositive, of 0] p r0
  have b: "stockOf (snd (createOrder quiet shop ''u1'' (request [0]))) ''p1'' = Some 10"
    by (auto simp: shirt_def)
  have c: "fst (createOrder quiet shop ''u1'' (request [- 5])) =
     Created ''o1'' (buildOrder quiet ''u1'' (request [- 5]) (Finite (- 500))
        [\<lparr>oi_productId = ''p1'', oi_quantity = - 5, oi_price = Finite 100, oi_size = None,
          oi_color = None\<rparr>])"
    using shop_order [of "- 5"] shop_subtotal(3) by auto
  have d: "stockOf shop ''p1'' = Some 10" by (simp add: stockOf_def shop_def shirt_def)
  from a b c d show ?thesis by simp
qed

section \<open>The same product in two line items\<close>

text \<open>
  When every line item of a request names a different product, the check of the
  validation loop covers the decrement of the transaction, and stock that was not
  negative stays so.
\<close>

lemma reserved_absent: "pid \<notin> productId ` set items \<Longrightarrow> reserved pid items = 0"
  by (induction items) (auto simp: reserved_Cons)

lemma reserved_distinct:
  "distinct (map productId items) \<Longrightarrow> item \<in> set items \<Longrightarrow>
   reserved (productId item) items = quantity item"
proof (induction items)
  case Nil
  then show ?case by simp
next
  case (Cons i rest)
  show ?case
  proof (cases "item = i")
    case True
    with Cons.prems(1) reserved_absent [of "productId i" rest] show ?thesis
      by (simp add: reserved_Cons)
  next
    case False
    with Cons.prems have "item \<in> set rest" "distinct (map productId rest)"
      "productId i \<noteq> productId item" by auto
    with Cons.IH show ?thesis by (simp add: reserved_Cons)
  qed
qed

lemma createOrder_distinct_keeps_stock_nonnegative:
  assumes "createOrder e s uid req = (r, s')"
    and "distinct (map productId (req_items req))"
    and "\<forall>pid p. products s pid = Some p \<longrightarrow> 0 \<le> stock p"
  shows "\<forall>pid p. products s' pid = Some p \<longrightarrow> 0 \<le> stock p"
  using createOrder_cases [OF assms(1)]
proof (elim disjE exE conjE)
  assume "s' = s"
  with assms(3) show ?thesis by simp
next
  fix order
  assume r: "r = Created (newId e) order"
    and s': "s' = adjustStock (\<lambda>pid. - reserved pid (req_items req))
                   (s\<lparr>orders := (orders s)(newId e \<mapsto> order)\<rparr>)"
  from createOrder_Created(3) [OF assms(1) [unfolded r]]
  have v: "validateItems e s 0 (req_items req) (fl 0) [] =
           Inr (subtotalOf s (req_items req), map (lineItem s) (req_items req))" .
  note checked = validateItems_Inr [OF v, THEN conjunct2, THEN conjunct2]
  show ?thesis
  proof (intro allI impI)
    fix pid p'
    assume "products s' pid = Some p'"
    then obtain p where p: "products s pid = Some p"
      and p': "stock p' = stock p - reserved pid (req_items req)"
      unfolding s' by auto
    show "0 \<le> stock p'"
    proof (cases "pid \<in> productId ` set (req_items req)")
      case False
      from reserved_absent [OF False] p p' assms(3) show ?thesis by simp
    next
      case True
      then obtain item where i: "item \<in> set (req_items req)" "productId item = pid" by auto
      from checked i p have "quantity item \<le> stock p" by auto
      with reserved_distinct [OF assms(2) i(1)] i(2) p' show ?thesis by simp
    qed
  qed
qed

text \<open>
  C1, at the input where the code leaves it. Each line item is checked against the stock
  read from the store, and no stock is written before the transaction; two line items
  of 6 for a product with stock 10 both pass, the order is created, and the two
  decrements leave the stock at -2.
\<close>

theorem C1_duplicate_line_items_oversell:
  "stockOf shop ''p1'' = Some 10 \<and>
   fst (createOrder quiet shop ''u1'' (request [6, 6])) =
     Created ''o1'' (buildOrder quiet ''u1'' (request [6, 6]) (Finite 1200)
        [\<lparr>oi_productId = ''p1'', oi_quantity = 6, oi_price = Finite 100, oi_size = None,
          oi_color = None\<rparr>,
         \<lparr>oi_productId = ''p1'', oi_quantity = 6, oi_price = Finite 100, oi_size = None,
          oi_color = None\<rparr>]) \<and>
   stockOf (run shop [CreateOrder quiet ''u1'' (request [6, 6])]) ''p1'' = Some (- 2)"
  by (simp add: run_def stockOf_def createOrder_def shop_defs transaction_def
        createOrderTx_def orderCreate_def updateStock_def number_eval)

section \<open>When an order can be cancelled\<close>

lemma released_Nil [simp]: "released pid [] = 0"
  by (simp add: released_def)

lemma released_Cons:
  "released pid (row # rest) =
     (if oi_productId row = pid then oi_quantity row else 0) + released pid rest"
  by (simp add: released_def)

lemma adjustStock_zero: "adjustStock (\<lambda>pid. 0) s = s"
  by (simp add: adjustStock_def option.map_ident fun_eq_iff cong: option.map_cong)

lemma incrementStock_frame:
  "incrementStock e k rows s = (ok, s') \<Longrightarrow>
   orders s' = orders s \<and> addresses s' = addresses s \<and> dom (products s') = dom (products s)"
proof (induction rows arbitrary: k s)
  case Nil
  then show ?case by simp
next
  case (Cons row rest)
  show ?case
  proof (cases "throws e (ProductUpdate k)")
    case True
    with Cons.prems show ?thesis by simp
  next
    case False
    obtain ok1 t1 where u: "updateStock (oi_productId row) (- oi_quantity row) s = (ok1, t1)"
      by (cases "updateStock (oi_productId row) (- oi_quantity row) s")
    note f = updateStock_dom [OF u]
    show ?thesis
    proof (cases ok1)
      case True
      with Cons.prems False u have "incrementStock e (Suc k) rest t1 = (ok, s')" by simp
      from Cons.IH [OF this] f show ?thesis by simp
    next
      case False
      with Cons.prems \<open>\<not> throws e (ProductUpdate k)\<close> u f show ?thesis by auto
    qed
  qed
qed

lemma incrementStock_True:
  "incrementStock e k rows s = (True, s') \<Longrightarrow>
   s' = adjustStock (\<lambda>pid. released pid rows) s"
proof (induction rows arbitrary: k s)
  case Nil
  then show ?case by (simp add: adjustStock_zero)
next
  case (Cons row rest)
  from Cons.prems obtain p where p: "products s (oi_productId row) = Some p"
    by (auto simp: updateStock_def split: if_splits option.splits)
  let ?s1 = "s\<lparr>products := (products s)(oi_productId row \<mapsto>
                p\<lparr>stock := stock p - (- oi_quantity row)\<rparr>)\<rparr>"
  from p have upd: "updateStock (oi_productId row) (- oi_quantity row) s = (True, ?s1)"
    by (simp add: updateStock_def)
  from Cons.prems upd have rec: "incrementStock e (Suc k) rest ?s1 = (True, s')"
    by (simp split: if_splits)
  have eq: "adjustStock (\<lambda>pid. released pid rest) ?s1 =
        adjustStock (\<lambda>pid. released pid (row # rest)) s"
    using p by (auto simp: adjustStock_def released_Cons fun_eq_iff)
  from Cons.IH [OF rec] eq show ?case by simp
qed

lemma incrementStock_completes:
  "\<forall>j. \<not> throws e (ProductUpdate j) \<Longrightarrow>
   \<forall>row \<in> set rows. products s (oi_productId row) \<noteq> None \<Longrightarrow>
   incrementStock e k rows s = (True, adjustStock (\<lambda>pid. released pid rows) s)"
proof (induction rows arbitrary: k s)
  case Nil
  then show ?case by (simp add: adjustStock_zero)
next
  case (Cons row rest)
  from Cons.prems(2) obtain p where p: "products s (oi_productId row) = Some p" by auto
  let ?s1 = "s\<lparr>products := (products s)(oi_productId row \<mapsto>
                p\<lparr>stock := stock p - (- oi_quantity row)\<rparr>)\<rparr>"
  from p have upd: "updateStock (oi_productId row) (- oi_quantity row) s = (True, ?s1)"
    by (simp add: updateStock_def)
  from Cons.prems(2) have rest: "\<forall>r \<in> set rest. products ?s1 (oi_productId r) \<noteq> None" by simp
  have eq: "adjustStock (\<lambda>pid. released pid rest) ?s1 =
        adjustStock (\<lambda>pid. released pid (row # rest)) s"
    using p by (auto simp: adjustStock_def released_Cons fun_eq_iff)
  from Cons.IH [OF Cons.prems(1) rest] Cons.prems(1) upd eq show ?case by simp
qed

text \<open>
  A call of \<open>cancelOrder\<close> either leaves the store as it was, or answers 200 for a
  pending order of the caller, which is then cancelled with its quantities back in
  stock.
\<close>

lemma cancelOrder_cases:
  assumes "cancelOrder e s uid oid = (r, s')"
  shows "(s' = s \<and> r \<noteq> OrderCancelled) \<or>
         (\<exists>order. r = OrderCancelled \<and> orders s oid = Some order \<and> userId order = uid \<and>
            status order = PENDING \<and>
            s' = adjustStock (\<lambda>pid. released pid (orderItems order))
                   (s\<lparr>orders := (orders s)(oid \<mapsto> order\<lparr>status := CANCELLED\<rparr>)\<rparr>))"
proof (cases "r = OrderCancelled")
  case False
  with assms show ?thesis
    by (auto simp: cancelOrder_def transaction_def
           split: if_splits option.splits prod.splits bool.splits)
next
  case True
  with assms obtain order where
    o: "orders s oid = Some order" "userId order = uid" "status order = PENDING" and
    tx: "cancelOrderTx e oid order s = (True, s')"
    by (auto simp: cancelOrder_def transaction_def
           split: if_splits option.splits prod.splits bool.splits)
  let ?s1 = "s\<lparr>orders := (orders s)(oid \<mapsto> order\<lparr>status := CANCELLED\<rparr>)\<rparr>"
  from tx o(1) have inc: "incrementStock e 0 (orderItems order) ?s1 = (True, s')"
    by (auto simp: cancelOrderTx_def orderUpdateStatus_def
           split: if_splits prod.splits bool.splits)
  from incrementStock_True [OF inc] o True show ?thesis by simp
qed

lemma cancelOrder_succeeds:
  assumes "noFaults e"
    and "orders s oid = Some order" and "userId order = uid" and "status order = PENDING"
    and "\<forall>row \<in> set (orderItems order). products s (oi_productId row) \<noteq> None"
  shows "cancelOrder e s uid oid =
     (OrderCancelled,
      adjustStock (\<lambda>pid. released pid (orderItems order))
        (s\<lparr>orders := (orders s)(oid \<mapsto> order\<lparr>status := CANCELLED\<rparr>)\<rparr>))"
proof -
  let ?s1 = "s\<lparr>orders := (orders s)(oid \<mapsto> order\<lparr>status := CANCELLED\<rparr>)\<rparr>"
  from assms(1) have nf: "\<And>c. \<not> throws e c" by (simp add: noFaults_def)
  then have nfu: "\<forall>j. \<not> throws e (ProductUpdate j)" by simp
  from assms(5) have ex: "\<forall>row \<in> set (orderItems order). products ?s1 (oi_productId row) \<noteq> None"
    by simp
  have tx: "cancelOrderTx e oid order s =
      (True, adjustStock (\<lambda>pid. released pid (orderItems order)) ?s1)"
    using incrementStock_completes [OF nfu ex, of 0] nf assms(2)
    by (simp add: cancelOrderTx_def orderUpdateStatus_def)
  from tx nf assms(2-4) show ?thesis
    by (simp add: cancelOrder_def transaction_def)
qed

lemma cancelOrder_refuses:
  assumes "\<not> throws e OrderFind"
    and "\<not> (\<exists>order. orders s oid = Some order \<and> userId order = uid \<and> status order = PENDING)"
  shows "cancelOrder e s uid oid = (OrderNotCancellable, s)"
  using assms by (auto simp: cancelOrder_def split: option.splits)


text \<open>
  Referential integrity is kept by every route: a new order only has rows for products
  the validation loop found, and no route removes a product or changes the rows of an
  order. So the line items of every order name products of the store in every store
  reached from one where they do, such as a store without orders.
\<close>

lemma step_referential:
  assumes "referential s"
  shows "referential (step s c)"
proof (cases c)
  case (CreateOrder e uid req)
  obtain r s' where run: "createOrder e s uid req = (r, s')"
    by (cases "createOrder e s uid req")
  from createOrder_cases [OF run] show ?thesis
  proof (elim disjE exE conjE)
    assume "s' = s"
    with CreateOrder run assms show ?thesis by simp
  next
    fix order
    assume r: "r = Created (newId e) order"
      and o: "order = buildOrder e uid req (subtotalOf s (req_items req))
                      (map (lineItem s) (req_items req))"
      and s': "s' = adjustStock (\<lambda>pid. - reserved pid (req_items req))
                   (s\<lparr>orders := (orders s)(newId e \<mapsto> order)\<rparr>)"
    from createOrder_Created(3) [OF run [unfolded r]]
    have v: "validateItems e s 0 (req_items req) (fl 0) [] =
           Inr (subtotalOf s (req_items req), map (lineItem s) (req_items req))" .
    from validateItems_Inr [OF v]
    have ex: "\<forall>item \<in> set (req_items req). products s (productId item) \<noteq> None" by auto
    from o ex have new: "\<forall>row \<in> set (orderItems order). products s (oi_productId row) \<noteq> None"
      by (auto simp: buildOrder_def lineItem_def)
    from assms new have "referential s'"
      unfolding s' referential_def by (auto split: if_splits)
    with CreateOrder run show ?thesis by simp
  qed
next
  case (CancelOrder e uid oid)
  obtain r s' where run: "cancelOrder e s uid oid = (r, s')"
    by (cases "cancelOrder e s uid oid")
  from cancelOrder_cases [OF run] show ?thesis
  proof (elim disjE exE conjE)
    assume "s' = s"
    with CancelOrder run assms show ?thesis by simp
  next
    fix order
    assume o: "orders s oid = Some order"
      and s': "s' = adjustStock (\<lambda>pid. released pid (orderItems order))
                   (s\<lparr>orders := (orders s)(oid \<mapsto> order\<lparr>status := CANCELLED\<rparr>)\<rparr>)"
    from assms o have "referential s'"
      unfolding s' referential_def by (auto split: if_splits)
    with CancelOrder run show ?thesis by simp
  qed
next
  case (UpdateOrderStatus e oid st)
  from assms have "referential (snd (updateOrderStatus e s oid st))"
    unfolding referential_def
    by (auto simp: updateOrderStatus_def orderUpdateStatus_def split: if_splits option.splits)
  with UpdateOrderStatus show ?thesis by simp
qed

lemma run_referential: "referential s \<Longrightarrow> referential (run s cs)"
proof (induction cs arbitrary: s)
  case Nil
  then show ?case by (simp add: run_def)
next
  case (Cons c cs)
  from Cons.IH [OF step_referential [OF Cons.prems, of c]] show ?case by (simp add: run_def)
qed

lemma shop_referential: "referential shop"
  by (simp add: referential_def shop_def)

lemmas route_defs = run_def stockOf_def statusOf_def createOrder_def cancelOrder_def
  updateOrderStatus_def transaction_def createOrderTx_def cancelOrderTx_def orderCreate_def
  orderUpdateStatus_def updateStock_def buildOrder_def

text \<open>
  C4. When no store call rejects and the line items of the order name products of the
  store, \<open>cancelOrder\<close> answers 200 exactly when the order exists, belongs to the caller
  and is \<open>PENDING\<close>; in every other case it answers the one 404 of the route and leaves the
  store as it was. On success the order is \<open>CANCELLED\<close>, every product has the quantities
  of its line items added to its stock, and nothing else changes. Whatever rejects, a call
  that does not answer 200 changes nothing. An order of 3 against stock 10 leaves 7,
  cancelling it restores 10 and sets \<open>CANCELLED\<close>, and cancelling it again is refused.
\<close>

theorem C4_cancelOrder:
  "(noFaults e \<and>
    (\<forall>order. orders s oid = Some order \<longrightarrow>
       (\<forall>row \<in> set (orderItems order). products s (oi_productId row) \<noteq> None)) \<longrightarrow>
      (fst (cancelOrder e s uid oid) = OrderCancelled \<longleftrightarrow>
         (\<exists>order. orders s oid = Some order \<and> userId order = uid \<and> status order = PENDING)) \<and>
      (fst (cancelOrder e s uid oid) \<noteq> OrderCancelled \<longrightarrow>
         cancelOrder e s uid oid = (OrderNotCancellable, s)) \<and>
      (\<forall>order. orders s oid = Some order \<and> userId order = uid \<and> status order = PENDING \<longrightarrow>
         snd (cancelOrder e s uid oid) =
           adjustStock (\<lambda>pid. released pid (orderItems order))
             (s\<lparr>orders := (orders s)(oid \<mapsto> order\<lparr>status := CANCELLED\<rparr>)\<rparr>))) \<and>
   (fst (cancelOrder e s uid oid) = OrderCancelled \<or> snd (cancelOrder e s uid oid) = s) \<and>
   stockOf shop ''p1'' = Some 10 \<and>
   stockOf (run shop [CreateOrder quiet ''u1'' (request [3])]) ''p1'' = Some 7 \<and>
   stockOf (run shop [CreateOrder quiet ''u1'' (request [3]), CancelOrder quiet ''u1'' ''o1''])
     ''p1'' = Some 10 \<and>
   statusOf (run shop [CreateOrder quiet ''u1'' (request [3]), CancelOrder quiet ''u1'' ''o1''])
     ''o1'' = Some CANCELLED \<and>
   cancelOrder quiet
     (run shop [CreateOrder quiet ''u1'' (request [3]), CancelOrder quiet ''u1'' ''o1''])
     ''u1'' ''o1'' =
     (OrderNotCancellable,
      run shop [CreateOrder quiet ''u1'' (request [3]), CancelOrder quiet ''u1'' ''o1''])"
proof -
  have general: "(fst (cancelOrder e s uid oid) = OrderCancelled \<longleftrightarrow>
         (\<exists>order. orders s oid = Some order \<and> userId order = uid \<and> status order = PENDING)) \<and>
      (fst (cancelOrder e s uid oid) \<noteq> OrderCancelled \<longrightarrow>
         cancelOrder e s uid oid = (OrderNotCancellable, s)) \<and>
      (\<forall>order. orders s oid = Some order \<and> userId order = uid \<and> status order = PENDING \<longrightarrow>
         snd (cancelOrder e s uid oid) =
           adjustStock (\<lambda>pid. released pid (orderItems order))
             (s\<lparr>orders := (orders s)(oid \<mapsto> order\<lparr>status := CANCELLED\<rparr>)\<rparr>))"
    if nf: "noFaults e"
      and fk: "\<forall>order. orders s oid = Some order \<longrightarrow>
         (\<forall>row \<in> set (orderItems order). products s (oi_productId row) \<noteq> None)"
  proof (cases "\<exists>order. orders s oid = Some order \<and> userId order = uid \<and> status order = PENDING")
    case True
    then obtain order where o: "orders s oid = Some order" "userId order = uid"
      "status order = PENDING" by blast
    from fk o(1) have ex: "\<forall>row \<in> set (orderItems order). products s (oi_productId row) \<noteq> None"
      by blast
    from cancelOrder_succeeds [OF nf o ex] o True show ?thesis by auto
  next
    case False
    from nf have "\<not> throws e OrderFind" by (simp add: noFaults_def)
    from cancelOrder_refuses [OF this False] False show ?thesis by auto
  qed
  have atomic: "fst (cancelOrder e s uid oid) = OrderCancelled \<or> snd (cancelOrder e s uid oid) = s"
    using cancelOrder_cases [of e s uid oid "fst (cancelOrder e s uid oid)"
        "snd (cancelOrder e s uid oid)"]
    by auto
  have ex1: "stockOf shop ''p1'' = Some 10"
    by (simp add: stockOf_def shop_def shirt_def)
  have ex2: "stockOf (run shop [CreateOrder quiet ''u1'' (request [3])]) ''p1'' = Some 7"
    by (simp add: route_defs shop_defs)
  have ex3: "stockOf (run shop [CreateOrder quiet ''u1'' (request [3]),
      CancelOrder quiet ''u1'' ''o1'']) ''p1'' = Some 10"
    by (simp add: route_defs shop_defs)
  have ex4: "statusOf (run shop [CreateOrder quiet ''u1'' (request [3]),
      CancelOrder quiet ''u1'' ''o1'']) ''o1'' = Some CANCELLED"
    by (simp add: route_defs shop_defs)
  from ex4 have ex5: "cancelOrder quiet
     (run shop [CreateOrder quiet ''u1'' (request [3]), CancelOrder quiet ''u1'' ''o1''])
     ''u1'' ''o1'' =
     (OrderNotCancellable,
      run shop [CreateOrder quiet ''u1'' (request [3]), CancelOrder quiet ''u1'' ''o1''])"
    by (intro cancelOrder_refuses) (auto simp: quiet_def statusOf_def)
  from general atomic ex1 ex2 ex3 ex4 ex5 show ?thesis by blast
qed


theorem C4_witness:
  "noFaults quiet \<and>
   fst (cancelOrder quiet (run shop [CreateOrder quiet ''u1'' (request [3])]) ''u1'' ''o1'')
     = OrderCancelled \<and>
   cancelOrder quiet (run shop [CreateOrder quiet ''u1'' (request [3])]) ''u2'' ''o1''
     = (OrderNotCancellable, run shop [CreateOrder quiet ''u1'' (request [3])]) \<and>
   cancelOrder quiet (run shop [CreateOrder quiet ''u1'' (request [3])]) ''u1'' ''o2''
     = (OrderNotCancellable, run shop [CreateOrder quiet ''u1'' (request [3])])"
proof -
  let ?s1 = "run shop [CreateOrder quiet ''u1'' (request [3])]"
  have nf: "noFaults quiet" by (simp add: noFaults_def quiet_def)
  have fk1: "\<forall>order. orders ?s1 ''o1'' = Some order \<longrightarrow>
       (\<forall>row \<in> set (orderItems order). products ?s1 (oi_productId row) \<noteq> None)"
    by (simp add: route_defs shop_defs)
  have fk2: "\<forall>order. orders ?s1 ''o2'' = Some order \<longrightarrow>
       (\<forall>row \<in> set (orderItems order). products ?s1 (oi_productId row) \<noteq> None)"
    by (simp add: route_defs shop_defs)
  have mine: "\<exists>order. orders ?s1 ''o1'' = Some order \<and> userId order = ''u1'' \<and>
      status order = PENDING"
    by (simp add: route_defs shop_defs)
  have other: "\<not> (\<exists>order. orders ?s1 ''o1'' = Some order \<and> userId order = ''u2'' \<and>
      status order = PENDING)"
    by (simp add: route_defs shop_defs)
  have missing: "\<not> (\<exists>order. orders ?s1 ''o2'' = Some order \<and> userId order = ''u1'' \<and>
      status order = PENDING)"
    by (simp add: route_defs shop_defs)
  from C4_cancelOrder [where e = quiet and s = ?s1 and uid = "''u1''" and oid = "''o1''"]
    nf fk1 mine
  have a: "fst (cancelOrder quiet ?s1 ''u1'' ''o1'') = OrderCancelled" by blast
  from C4_cancelOrder [where e = quiet and s = ?s1 and uid = "''u2''" and oid = "''o1''"]
    nf fk1 other
  have b: "cancelOrder quiet ?s1 ''u2'' ''o1'' = (OrderNotCancellable, ?s1)" by blast
  from C4_cancelOrder [where e = quiet and s = ?s1 and uid = "''u1''" and oid = "''o2''"]
    nf fk2 missing
  have c: "cancelOrder quiet ?s1 ''u1'' ''o2'' = (OrderNotCancellable, ?s1)" by blast
  from nf a b c show ?thesis by blast
qed

section \<open>The status CANCELLED\<close>

lemma step_user_keeps_cancelled:
  assumes "userCall c" and "statusOf s oid = Some CANCELLED"
  shows "statusOf (step s c) oid = Some CANCELLED"
proof (cases c)
  case (CreateOrder e uid req)
  from createOrder_cases [OF surjective_pairing, of e s uid req]
  show ?thesis
  proof (elim disjE exE conjE)
    assume "snd (createOrder e s uid req) = s"
    with CreateOrder assms(2) show ?thesis by simp
  next
    fix order
    assume free: "orders s (newId e) = None"
      and s': "snd (createOrder e s uid req) =
         adjustStock (\<lambda>pid. - reserved pid (req_items req))
           (s\<lparr>orders := (orders s)(newId e \<mapsto> order)\<rparr>)"
    from free assms(2) have "oid \<noteq> newId e" by (auto simp: statusOf_def)
    with s' CreateOrder assms(2) show ?thesis by (simp add: statusOf_def)
  qed
next
  case (CancelOrder e uid oid')
  from cancelOrder_cases [OF surjective_pairing, of e s uid oid']
  show ?thesis
  proof (elim disjE exE conjE)
    assume "snd (cancelOrder e s uid oid') = s"
    with CancelOrder assms(2) show ?thesis by simp
  next
    fix order
    assume s': "snd (cancelOrder e s uid oid') =
         adjustStock (\<lambda>pid. released pid (orderItems order))
           (s\<lparr>orders := (orders s)(oid' \<mapsto> order\<lparr>status := CANCELLED\<rparr>)\<rparr>)"
    with CancelOrder assms(2) show ?thesis by (simp add: statusOf_def)
  qed
next
  case (UpdateOrderStatus e oid' st)
  with assms(1) show ?thesis by simp
qed

lemma run_user_keeps_cancelled:
  "list_all userCall cs \<Longrightarrow> statusOf s oid = Some CANCELLED \<Longrightarrow>
   statusOf (run s cs) oid = Some CANCELLED"
proof (induction cs arbitrary: s)
  case Nil
  then show ?case by (simp add: run_def)
next
  case (Cons c cs)
  from Cons.prems have c: "userCall c" and cs: "list_all userCall cs" by simp_all
  from Cons.IH [OF cs step_user_keeps_cancelled [OF c Cons.prems(2)]]
  show ?case by (simp add: run_def)
qed

lemma step_user_enters_cancelled:
  assumes "userCall c" and "statusOf (step s c) oid = Some CANCELLED"
    and "statusOf s oid \<noteq> Some CANCELLED"
  shows "\<exists>e order. c = CancelOrder e (userId order) oid \<and> orders s oid = Some order \<and>
           status order = PENDING"
proof (cases c)
  case (CreateOrder e uid req)
  from createOrder_cases [OF surjective_pairing, of e s uid req]
  show ?thesis
  proof (elim disjE exE conjE)
    assume "snd (createOrder e s uid req) = s"
    with CreateOrder assms(2,3) show ?thesis by simp
  next
    fix order
    assume o: "order = buildOrder e uid req (subtotalOf s (req_items req))
                      (map (lineItem s) (req_items req))"
      and s': "snd (createOrder e s uid req) =
         adjustStock (\<lambda>pid. - reserved pid (req_items req))
           (s\<lparr>orders := (orders s)(newId e \<mapsto> order)\<rparr>)"
    from o have "status order = PENDING" by (simp add: buildOrder_def)
    with s' CreateOrder assms(2,3) show ?thesis
      by (auto simp: statusOf_def split: if_splits)
  qed
next
  case (CancelOrder e uid oid')
  from cancelOrder_cases [OF surjective_pairing, of e s uid oid']
  show ?thesis
  proof (elim disjE exE conjE)
    assume "snd (cancelOrder e s uid oid') = s"
    with CancelOrder assms(2,3) show ?thesis by simp
  next
    fix order
    assume o: "orders s oid' = Some order" "userId order = uid" "status order = PENDING"
      and s': "snd (cancelOrder e s uid oid') =
         adjustStock (\<lambda>pid. released pid (orderItems order))
           (s\<lparr>orders := (orders s)(oid' \<mapsto> order\<lparr>status := CANCELLED\<rparr>)\<rparr>)"
    show ?thesis
    proof (cases "oid = oid'")
      case True
      with o CancelOrder show ?thesis by auto
    next
      case False
      with s' CancelOrder assms(2,3) show ?thesis by (simp add: statusOf_def)
    qed
  qed
next
  case (UpdateOrderStatus e oid' st)
  with assms(1) show ?thesis by simp
qed

lemma step_admin_sets_status:
  "\<not> throws e OrderUpdate \<Longrightarrow> orders s oid \<noteq> None \<Longrightarrow>
   statusOf (step s (UpdateOrderStatus e oid st)) oid = Some st"
  by (auto simp: statusOf_def updateOrderStatus_def orderUpdateStatus_def)

text \<open>
  C6, as the code has it. Under every sequence of \<open>createOrder\<close> and \<open>cancelOrder\<close> calls
  a cancelled order stays cancelled, and such a call makes an order \<open>CANCELLED\<close> only when
  it is \<open>cancelOrder\<close> by the owner of the order, which was \<open>PENDING\<close>. The admin status
  update writes the status it is given over any status of an existing order.
\<close>

theorem C6_cancelled_under_user_calls:
  "(list_all userCall cs \<and> statusOf s oid = Some CANCELLED \<longrightarrow>
      statusOf (run s cs) oid = Some CANCELLED) \<and>
   (userCall c \<and> statusOf (step s c) oid = Some CANCELLED \<and>
    statusOf s oid \<noteq> Some CANCELLED \<longrightarrow>
      (\<exists>e order. c = CancelOrder e (userId order) oid \<and> orders s oid = Some order \<and>
         status order = PENDING)) \<and>
   (\<not> throws e OrderUpdate \<and> orders s oid \<noteq> None \<longrightarrow>
      statusOf (step s (UpdateOrderStatus e oid st)) oid = Some st)"
  using run_user_keeps_cancelled [of cs s oid] step_user_enters_cancelled [of c s oid]
    step_admin_sets_status [of e s oid st]
  by blast

text \<open>
  The admin update takes a cancelled order to \<open>SHIPPED\<close>, and a delivered order to
  \<open>CANCELLED\<close>.
\<close>

theorem C6_counterexample:
  "statusOf (run shop [CreateOrder quiet ''u1'' (request [3]), CancelOrder quiet ''u1'' ''o1''])
     ''o1'' = Some CANCELLED \<and>
   statusOf (run shop [CreateOrder quiet ''u1'' (request [3]), CancelOrder quiet ''u1'' ''o1'',
                       UpdateOrderStatus quiet ''o1'' SHIPPED]) ''o1'' = Some SHIPPED \<and>
   statusOf (run shop [CreateOrder quiet ''u1'' (request [3]),
                       UpdateOrderStatus quiet ''o1'' DELIVERED]) ''o1'' = Some DELIVERED \<and>
   statusOf (run shop [CreateOrder quiet ''u1'' (request [3]),
                       UpdateOrderStatus quiet ''o1'' DELIVERED,
                       UpdateOrderStatus quiet ''o1'' CANCELLED]) ''o1'' = Some CANCELLED"
  by (simp add: route_defs shop_defs)

theorem C6_witness:
  "list_all userCall [CancelOrder quiet ''u1'' ''o1'', CreateOrder quiet ''u1'' (request [2])] \<and>
   statusOf (run shop [CreateOrder quiet ''u1'' (request [3]), CancelOrder quiet ''u1'' ''o1''])
     ''o1'' = Some CANCELLED \<and>
   statusOf (run (run shop [CreateOrder quiet ''u1'' (request [3]),
                            CancelOrder quiet ''u1'' ''o1''])
               [CancelOrder quiet ''u1'' ''o1'', CreateOrder quiet ''u1'' (request [2])])
     ''o1'' = Some CANCELLED \<and>
   statusOf (step (run shop [CreateOrder quiet ''u1'' (request [3])])
               (UpdateOrderStatus quiet ''o1'' CANCELLED)) ''o1'' = Some CANCELLED"
proof -
  let ?s1 = "run shop [CreateOrder quiet ''u1'' (request [3])]"
  let ?s2 = "run shop [CreateOrder quiet ''u1'' (request [3]), CancelOrder quiet ''u1'' ''o1'']"
  let ?cs = "[CancelOrder quiet ''u1'' ''o1'', CreateOrder quiet ''u1'' (request [2])]"
  have u: "list_all userCall ?cs" by simp
  have c: "statusOf ?s2 ''o1'' = Some CANCELLED" by (simp add: route_defs shop_defs)
  have nt: "\<not> throws quiet OrderUpdate" by (simp add: quiet_def)
  have ex: "orders ?s1 ''o1'' \<noteq> None" by (simp add: route_defs shop_defs)
  from C6_cancelled_under_user_calls [where cs = ?cs and s = ?s2 and oid = "''o1''"] u c
  have a: "statusOf (run ?s2 ?cs) ''o1'' = Some CANCELLED" by blast
  from C6_cancelled_under_user_calls [where e = quiet and s = ?s1 and oid = "''o1''"
      and st = CANCELLED] nt ex
  have b: "statusOf (step ?s1 (UpdateOrderStatus quiet ''o1'' CANCELLED)) ''o1'' = Some CANCELLED"
    by blast
  from u c a b show ?thesis by blast
qed

end
